theory Spec2Isabelle
  imports Main
begin

section \<open>Python primitives used by app.py\<close>

text \<open>
  Indices of the truth table come from \<^verbatim>\<open>range(2**num_vars)\<close> and are modelled as
  \<^typ>\<open>nat\<close>; the minterm and don't-care lists of a request are arbitrary Python
  integers (\<^typ>\<open>int\<close>). Strings are \<^typ>\<open>string\<close>.
\<close>

abbreviation prime :: string where
  "prime \<equiv> [CHR 0x27]"

definition bit_char :: "nat \<Rightarrow> char" where
  "bit_char d = (if d = 0 then CHR ''0'' else CHR ''1'')"

text \<open>The binary digits of a non-negative integer, most significant first
  (\<^verbatim>\<open>format(i, 'b')\<close>).\<close>

function bin_digits :: "nat \<Rightarrow> string" where
  "bin_digits i = (if i < 2 then [bit_char i] else bin_digits (i div 2) @ [bit_char (i mod 2)])"
  by pat_completeness auto
termination
  by (relation "measure id") auto

declare bin_digits.simps [simp del]

text \<open>\<^verbatim>\<open>format(i, f'0{width}b')\<close>: zero-padded on the left to at least \<open>width\<close>
  characters; a number that needs more digits is not truncated.\<close>

definition format_b :: "nat \<Rightarrow> nat \<Rightarrow> string" where
  "format_b width i =
     (let s = bin_digits i in replicate (width - length s) (CHR ''0'') @ s)"

text \<open>\<^verbatim>\<open>int(c)\<close> on a digit character.\<close>

definition int_digit :: "char \<Rightarrow> nat" where
  "int_digit c = of_char c - 48"

text \<open>\<^verbatim>\<open>int(s, 2)\<close> on a string of binary digits. Python raises ValueError on the
  empty string; app.py guards both calls so that the argument is never empty.\<close>

definition int_base2 :: "string \<Rightarrow> nat" where
  "int_base2 s = foldl (\<lambda>acc c. 2 * acc + int_digit c) 0 s"

text \<open>\<^verbatim>\<open>sep.join(parts)\<close>.\<close>

fun join :: "string \<Rightarrow> string list \<Rightarrow> string" where
  "join sep [] = []"
| "join sep [x] = x"
| "join sep (x # y # ys) = x @ sep @ join sep (y # ys)"

text \<open>Decimal rendering of a non-negative integer (\<^verbatim>\<open>str(n)\<close>).\<close>

definition digit_char :: "nat \<Rightarrow> char" where
  "digit_char d = char_of (48 + d)"

function str_nat :: "nat \<Rightarrow> string" where
  "str_nat n = (if n < 10 then [digit_char n] else str_nat (n div 10) @ [digit_char (n mod 10)])"
  by pat_completeness auto
termination
  by (relation "measure id") auto

declare str_nat.simps [simp del]

text \<open>\<^verbatim>\<open>str(xs)\<close> for a list of non-negative integers: \<^verbatim>\<open>[1, 2, 3]\<close>.\<close>

definition str_list :: "nat list \<Rightarrow> string" where
  "str_list xs = ''['' @ join '', '' (map str_nat xs) @ '']''"

text \<open>\<^verbatim>\<open>s.replace(old, new)\<close>: non-overlapping occurrences, left to right. With an
  empty \<open>old\<close> Python inserts \<open>new\<close> before every character and at the end.\<close>

function replace_from :: "string \<Rightarrow> string \<Rightarrow> string \<Rightarrow> string" where
  "replace_from old new s =
     (if s = [] \<or> old = [] then s
      else if take (length old) s = old then new @ replace_from old new (drop (length old) s)
      else hd s # replace_from old new (tl s))"
  by pat_completeness auto
termination
  by (relation "measure (\<lambda>(old, new, s). length s)") auto

declare replace_from.simps [simp del]

definition replace :: "string \<Rightarrow> string \<Rightarrow> string \<Rightarrow> string" where
  "replace s old new =
     (if old = [] then new @ concat (map (\<lambda>c. c # new) s) else replace_from old new s)"

text \<open>\<^verbatim>\<open>sorted(xs, key=len, reverse=True)\<close>: Python's sort is stable, also in
  reverse.\<close>

definition sorted_len_reverse :: "string list \<Rightarrow> string list" where
  "sorted_len_reverse xs = rev (sort_key length (rev xs))"


section \<open>The expressions of the minimizer\<close>

text \<open>
  The values that app.py receives from sympy's \<^verbatim>\<open>SOPform\<close> and \<^verbatim>\<open>POSform\<close>, and
  inspects with \<^verbatim>\<open>isinstance\<close>, \<^verbatim>\<open>.args\<close> and \<^verbatim>\<open>str\<close>. sympy's Boolean constants are
  the singletons \<^verbatim>\<open>S.true\<close> and \<^verbatim>\<open>S.false\<close> (classes BooleanTrue and BooleanFalse);
  they are objects of their own, distinct from Python's \<^verbatim>\<open>True\<close> and \<^verbatim>\<open>False\<close>:
  \<^verbatim>\<open>S.true == True\<close> holds, \<^verbatim>\<open>S.true is True\<close> does not. \<open>PyBool\<close> is a Python bool,
  which the tests of app.py also accept.
\<close>

datatype expr =
    PyBool bool
  | BooleanTrue
  | BooleanFalse
  | Symbol string
  | Not_expr expr
  | And_expr "expr list"
  | Or_expr "expr list"

text \<open>\<^verbatim>\<open>str(e)\<close>, following sympy's string printer: a symbol prints as its name, the
  constants as \<^verbatim>\<open>True\<close> and \<^verbatim>\<open>False\<close>, a negation as \<^verbatim>\<open>~x\<close>, a conjunction with
  \<^verbatim>\<open> & \<close> and a disjunction with \<^verbatim>\<open> | \<close>, compound arguments in parentheses.\<close>

fun is_compound :: "expr \<Rightarrow> bool" where
  "is_compound (And_expr as) = True"
| "is_compound (Or_expr as) = True"
| "is_compound (Not_expr a) = False"
| "is_compound e = False"

fun str_expr :: "expr \<Rightarrow> string" where
  "str_expr (PyBool b) = (if b then ''True'' else ''False'')"
| "str_expr BooleanTrue = ''True''"
| "str_expr BooleanFalse = ''False''"
| "str_expr (Symbol name) = name"
| "str_expr (Not_expr a) =
     ''~'' @ (if is_compound a then ''('' @ str_expr a @ '')'' else str_expr a)"
| "str_expr (And_expr as) =
     join '' & '' (map (\<lambda>a. if is_compound a then ''('' @ str_expr a @ '')'' else str_expr a) as)"
| "str_expr (Or_expr as) =
     join '' | '' (map (\<lambda>a. if is_compound a then ''('' @ str_expr a @ '')'' else str_expr a) as)"


section \<open>group_to_term\<close>

text \<open>
  The loop over the bit positions (lines 23 to 37). \<open>variables\<close> holds the names of the
  symbols (\<^verbatim>\<open>str(variables[i])\<close>). Every string of \<open>bin_strings\<close> has at least
  \<open>num_vars\<close> characters (lemma \<open>length_format_b_ge\<close>), so the indexing never leaves the
  string.
\<close>

definition term_part :: "string list \<Rightarrow> string list \<Rightarrow> string \<Rightarrow> nat \<Rightarrow> string list" where
  "term_part bin_strings variables form_type i =
     (let first_bit = (bin_strings ! 0) ! i in
      if list_all (\<lambda>b. b ! i = first_bit) bin_strings
      then [if (form_type = ''SOP'' \<and> first_bit = CHR ''1'')
               \<or> (form_type = ''POS'' \<and> first_bit = CHR ''0'')
            then variables ! i
            else variables ! i @ prime]
      else [])"

definition term_parts :: "nat list \<Rightarrow> string list \<Rightarrow> string \<Rightarrow> string list" where
  "term_parts group_minterms variables form_type =
     (let num_vars = length variables;
          bin_strings = map (format_b num_vars) group_minterms
      in concat (map (term_part bin_strings variables form_type) [0..<num_vars]))"

definition group_to_term :: "nat list \<Rightarrow> string list \<Rightarrow> string \<Rightarrow> string" where
  "group_to_term group_minterms variables form_type =
     (if group_minterms = [] then ''''
      else let parts = term_parts group_minterms variables form_type in
        if parts = [] then ''1''
        else if form_type = ''SOP'' then concat parts
        else ''('' @ join '' + '' parts @ '')'')"


section \<open>get_minterms_for_term and get_implicant_groups\<close>

definition term_args :: "expr \<Rightarrow> expr list" where
  "term_args t = (case t of And_expr as \<Rightarrow> as | Or_expr as \<Rightarrow> as | _ \<Rightarrow> [t])"

text \<open>The dictionary \<open>fixed_vars\<close> built by the first loop (lines 57 to 61).\<close>

fun fixed_vars_loop :: "expr list \<Rightarrow> (string \<rightharpoonup> nat) \<Rightarrow> (string \<rightharpoonup> nat)" where
  "fixed_vars_loop [] fixed_vars = fixed_vars"
| "fixed_vars_loop (Not_expr a # args) fixed_vars =
     fixed_vars_loop args (fixed_vars(str_expr a \<mapsto> 0))"
| "fixed_vars_loop (arg # args) fixed_vars =
     fixed_vars_loop args (fixed_vars(str_expr arg \<mapsto> 1))"

text \<open>The inner loop over \<^verbatim>\<open>enumerate(variables)\<close> with its \<^verbatim>\<open>break\<close> (lines 64 to 67).\<close>

fun is_covered :: "(string \<rightharpoonup> nat) \<Rightarrow> string \<Rightarrow> (nat \<times> string) list \<Rightarrow> bool" where
  "is_covered fixed_vars bin_str [] = True"
| "is_covered fixed_vars bin_str ((var_index, var_name) # rest) =
     (case fixed_vars var_name of
        None \<Rightarrow> is_covered fixed_vars bin_str rest
      | Some b \<Rightarrow>
          if int_digit (bin_str ! var_index) \<noteq> b then False
          else is_covered fixed_vars bin_str rest)"

definition get_minterms_for_term :: "expr \<Rightarrow> string list \<Rightarrow> nat list" where
  "get_minterms_for_term t variables =
     (let num_vars = length variables;
          fixed_vars = fixed_vars_loop (term_args t) Map.empty
      in filter (\<lambda>i. is_covered fixed_vars (format_b num_vars i) (enumerate 0 variables))
           [0..<2 ^ num_vars])"

text \<open>\<^verbatim>\<open>minimized_expr in [True, False]\<close> compares with \<^verbatim>\<open>==\<close>, which sympy's
  constants satisfy.\<close>

fun in_True_False :: "expr \<Rightarrow> bool" where
  "in_True_False (PyBool b) = True"
| "in_True_False BooleanTrue = True"
| "in_True_False BooleanFalse = True"
| "in_True_False e = False"

definition get_implicant_groups :: "expr \<Rightarrow> string list \<Rightarrow> nat list list" where
  "get_implicant_groups minimized_expr variables =
     (if in_True_False minimized_expr then []
      else let terms = (case minimized_expr of Or_expr as \<Rightarrow> as | _ \<Rightarrow> [minimized_expr])
           in map (\<lambda>t. get_minterms_for_term t variables) terms)"


section \<open>format_sympy_expr\<close>

text \<open>
  \<^verbatim>\<open>expr_obj is True\<close> is an identity test against Python's own \<^verbatim>\<open>True\<close>: of the values
  of \<^typ>\<open>expr\<close> only \<open>PyBool True\<close> passes it. \<^verbatim>\<open>re.sub\<close> with the literal pattern
  \<^verbatim>\<open>\) & \(\<close> replaces the non-overlapping occurrences of \<^verbatim>\<open>) & (\<close> from the left, as
  \<^verbatim>\<open>str.replace\<close> does.
\<close>

definition format_sympy_expr :: "expr \<Rightarrow> string list \<Rightarrow> string \<Rightarrow> string" where
  "format_sympy_expr expr_obj var_names form_type =
     (if expr_obj = PyBool True then ''1''
      else if expr_obj = PyBool False then ''0''
      else
        let expr_str = fold (\<lambda>var s. replace s (''~'' @ var) (var @ prime))
                         (sorted_len_reverse var_names) (str_expr expr_obj)
        in if form_type = ''SOP''
           then replace (replace expr_str '' & '' '''') '' | '' '' + ''
           else replace (replace (replace expr_str '' | '' '' + '') '' & '' '''')
                  '') & ('' '') ('')"


section \<open>generate_kmap\<close>

text \<open>An exception is the value of \<^verbatim>\<open>str(e)\<close>, which is all that the handler of
  \<^verbatim>\<open>solve_kmap\<close> reads.\<close>

type_synonym exn = string

record kmap_data =
  kmap :: "string list list"
  row_labels :: "string list"
  col_labels :: "string list"
  row_vars :: string
  col_vars :: string
  output_name :: string

definition gray_map :: "nat \<rightharpoonup> nat" where
  "gray_map = [0 \<mapsto> 0, 1 \<mapsto> 1, 2 \<mapsto> 3, 3 \<mapsto> 2]"

text \<open>\<^verbatim>\<open>gray_map.get(x, x)\<close>.\<close>

definition gray_map_get :: "nat \<Rightarrow> nat" where
  "gray_map_get x = (case gray_map x of Some y \<Rightarrow> y | None \<Rightarrow> x)"

text \<open>\<^verbatim>\<open>{m: "1" for m in minterms}\<close>, then \<^verbatim>\<open>update({d: "X" for d in dontcares})\<close>.\<close>

definition all_terms :: "int list \<Rightarrow> int list \<Rightarrow> (int \<rightharpoonup> string)" where
  "all_terms minterms dontcares =
     map_of (map (\<lambda>m. (m, ''1'')) minterms) ++ map_of (map (\<lambda>d. (d, ''X'')) dontcares)"

text \<open>\<^verbatim>\<open>all_terms.get(i, "0")\<close>.\<close>

definition cell_value :: "(int \<rightharpoonup> string) \<Rightarrow> nat \<Rightarrow> string" where
  "cell_value terms i = (case terms (int i) of Some v \<Rightarrow> v | None \<Rightarrow> ''0'')"

text \<open>The grid position \<^verbatim>\<open>(r, c)\<close> that the loop body computes for index \<open>i\<close>
  (lines 102 to 104).\<close>

definition cell_pos :: "string list \<Rightarrow> nat \<Rightarrow> nat \<times> nat" where
  "cell_pos variables i =
     (let num_vars = length variables;
          row_vars = take (num_vars div 2) variables;
          col_vars = drop (num_vars div 2) variables;
          bin_str = format_b num_vars i;
          r_bin = (if row_vars \<noteq> [] then int_base2 (take (length row_vars) bin_str) else 0);
          c_bin = (if col_vars \<noteq> [] then int_base2 (drop (length row_vars) bin_str) else 0)
      in (gray_map_get r_bin, gray_map_get c_bin))"

text \<open>\<^verbatim>\<open>kmap[r][c] = val\<close>; Python raises IndexError outside the grid.\<close>

definition set_cell :: "string list list \<Rightarrow> nat \<Rightarrow> nat \<Rightarrow> string \<Rightarrow> exn + string list list" where
  "set_cell grid r c val =
     (if r < length grid
      then if c < length (grid ! r)
           then Inr (grid[r := (grid ! r)[c := val]])
           else Inl ''list assignment index out of range''
      else Inl ''list index out of range'')"

fun kmap_loop ::
  "string list \<Rightarrow> (int \<rightharpoonup> string) \<Rightarrow> nat list \<Rightarrow> string list list \<Rightarrow> exn + string list list" where
  "kmap_loop variables terms [] grid = Inr grid"
| "kmap_loop variables terms (i # rest) grid =
     (case set_cell grid (fst (cell_pos variables i)) (snd (cell_pos variables i))
             (cell_value terms i) of
        Inl e \<Rightarrow> Inl e
      | Inr grid' \<Rightarrow> kmap_loop variables terms rest grid')"

definition axis_labels :: "string list \<Rightarrow> string list" where
  "axis_labels vars = (if length vars = 1 then [''0'', ''1''] else [''00'', ''01'', ''11'', ''10''])"

text \<open>\<^verbatim>\<open>rows, cols\<close> of line 94.\<close>

definition grid_dims :: "nat \<Rightarrow> nat \<times> nat" where
  "grid_dims num_vars = (if num_vars = 4 then (4, 4) else if num_vars = 3 then (2, 4) else (2, 2))"

text \<open>The result is \<open>Inr None\<close> where Python returns \<^verbatim>\<open>None\<close>.\<close>

definition generate_kmap ::
  "string list \<Rightarrow> int list \<Rightarrow> int list \<Rightarrow> string \<Rightarrow> exn + kmap_data option" where
  "generate_kmap variables minterms dontcares out_name =
     (let num_vars = length variables in
      if num_vars \<notin> {2, 3, 4} then Inr None
      else
        let rows = fst (grid_dims num_vars);
            cols = snd (grid_dims num_vars);
            rvars = take (num_vars div 2) variables;
            cvars = drop (num_vars div 2) variables;
            grid0 = replicate rows (replicate cols ''0'')
        in case kmap_loop variables (all_terms minterms dontcares) [0..<2 ^ num_vars] grid0 of
             Inl e \<Rightarrow> Inl e
           | Inr grid \<Rightarrow>
               Inr (Some \<lparr>kmap = grid, row_labels = axis_labels rvars,
                          col_labels = axis_labels cvars, row_vars = join '','' rvars,
                          col_vars = join '','' cvars, output_name = out_name\<rparr>))"


section \<open>solve_kmap\<close>

text \<open>
  sympy is an external collaborator: \<^verbatim>\<open>symbols\<close>, \<^verbatim>\<open>SOPform\<close> and \<^verbatim>\<open>POSform\<close> are
  parameters of the model, each returning a value or raising. \<^verbatim>\<open>symbols\<close> returns one
  symbol or a tuple of symbols, given here by their names. The minimizers take the names
  of the symbols, the minterms and the don't-cares.
\<close>

datatype symbols_result = One_symbol string | Symbol_tuple "string list"

record sympy =
  symbols :: "string \<Rightarrow> exn + symbols_result"
  SOPform :: "string list \<Rightarrow> int list \<Rightarrow> int list \<Rightarrow> exn + expr"
  POSform :: "string list \<Rightarrow> int list \<Rightarrow> int list \<Rightarrow> exn + expr"

record kmap_response =
  kmap_of :: kmap_data
  groups :: "nat list list"
  explanations :: "string list"
  form_type_of :: string

datatype response =
    Solution string kmap_response
  | Error_response string nat

text \<open>The handler of line 170.\<close>

definition unexpected :: "exn \<Rightarrow> response" where
  "unexpected e = Error_response (''An unexpected server error occurred: '' @ e) 500"

text \<open>\<^verbatim>\<open>kmap_data.update({...})\<close> on the result of \<^verbatim>\<open>generate_kmap\<close>, which raises
  AttributeError when that result is \<^verbatim>\<open>None\<close>.\<close>

definition update_kmap ::
  "exn + kmap_data option \<Rightarrow> nat list list \<Rightarrow> string list \<Rightarrow> string \<Rightarrow> exn + kmap_response" where
  "update_kmap res gs es form_type =
     (case res of
        Inl e \<Rightarrow> Inl e
      | Inr None \<Rightarrow> Inl (prime @ ''NoneType'' @ prime @ '' object has no attribute ''
                         @ prime @ ''update'' @ prime)
      | Inr (Some d) \<Rightarrow>
          Inr \<lparr>kmap_of = d, groups = gs, explanations = es, form_type_of = form_type\<rparr>)"

text \<open>The loop over the groups (lines 150 to 159). \<open>terms_to_group\<close> is a list of Python
  integers.\<close>

definition relevant_terms :: "nat list \<Rightarrow> int list \<Rightarrow> nat list" where
  "relevant_terms grp terms_to_group = sort (filter (\<lambda>m. int m \<in> set terms_to_group) grp)"

definition explanation :: "string \<Rightarrow> nat list \<Rightarrow> string \<Rightarrow> string" where
  "explanation term_name relevant algebraic_term =
     ''A group is formed around the '' @ term_name @ '' at positions <strong>''
     @ str_list relevant @ ''</strong>. This simplifies to the term <code>''
     @ algebraic_term @ ''</code>.''"

fun explain_loop ::
  "nat list list \<Rightarrow> int list \<Rightarrow> string list \<Rightarrow> string \<Rightarrow> string \<Rightarrow> string list \<Rightarrow> string list" where
  "explain_loop [] terms_to_group variables form_type term_name acc = acc"
| "explain_loop (grp # rest) terms_to_group variables form_type term_name acc =
     (if relevant_terms grp terms_to_group = []
      then explain_loop rest terms_to_group variables form_type term_name acc
      else explain_loop rest terms_to_group variables form_type term_name
             (acc @ [explanation term_name (relevant_terms grp terms_to_group)
                       (group_to_term grp variables form_type)]))"

text \<open>
  \<^verbatim>\<open>list(set(range(2**n)) - set(minterms) - set(dontcares))\<close>. The order in which Python
  lists a set is not specified; the model lists the maxterms in ascending order. The order
  only reaches the minimizer, which is a parameter, and the membership test of the loop
  above.
\<close>

definition maxterms_of :: "nat \<Rightarrow> int list \<Rightarrow> int list \<Rightarrow> int list" where
  "maxterms_of n minterms dontcares =
     filter (\<lambda>i. i \<notin> set minterms \<and> i \<notin> set dontcares) (map int [0..<2 ^ n])"

text \<open>The part of \<^verbatim>\<open>solve_kmap\<close> after the symbols are made (lines 133 to 169).\<close>

definition finish ::
  "string list \<Rightarrow> string list \<Rightarrow> string \<Rightarrow> int list \<Rightarrow> int list \<Rightarrow> string
   \<Rightarrow> expr \<Rightarrow> nat list list \<Rightarrow> int list \<Rightarrow> string \<Rightarrow> response" where
  "finish variables var_names out_name minterms dontcares form_type
          minimized_expr gs terms_to_group term_name =
     (let es = explain_loop gs terms_to_group variables form_type term_name [];
          solution_str = format_sympy_expr minimized_expr var_names form_type
      in case update_kmap (generate_kmap var_names minterms dontcares out_name)
                gs es form_type of
           Inl e \<Rightarrow> unexpected e
         | Inr kd \<Rightarrow> Solution solution_str kd)"

definition solve_groups ::
  "sympy \<Rightarrow> string list \<Rightarrow> string list \<Rightarrow> string \<Rightarrow> int list \<Rightarrow> int list \<Rightarrow> string \<Rightarrow> response" where
  "solve_groups sp variables var_names out_name minterms dontcares form_type =
     (if form_type = ''SOP''
      then (case SOPform sp variables minterms dontcares of
              Inl e \<Rightarrow> unexpected e
            | Inr minimized_expr \<Rightarrow>
                finish variables var_names out_name minterms dontcares form_type
                  minimized_expr (get_implicant_groups minimized_expr variables)
                  minterms ''1s'')
      else (case POSform sp variables minterms dontcares of
              Inl e \<Rightarrow> unexpected e
            | Inr minimized_expr \<Rightarrow>
                let maxterms = maxterms_of (length variables) minterms dontcares in
                (case SOPform sp variables maxterms dontcares of
                   Inl e \<Rightarrow> unexpected e
                 | Inr sop_of_zeros_expr \<Rightarrow>
                     finish variables var_names out_name minterms dontcares form_type
                       minimized_expr (get_implicant_groups sop_of_zeros_expr variables)
                       maxterms ''0s'')))"

text \<open>
  \<^verbatim>\<open>solve_kmap\<close> from line 123 on, as a function of the values that lines 117 to 121
  read from the request: the variable names (stripped, empty ones dropped), the output
  name, the minterms and don't-cares as integers, and the form type.
\<close>

definition solve_kmap ::
  "sympy \<Rightarrow> string list \<Rightarrow> string \<Rightarrow> int list \<Rightarrow> int list \<Rightarrow> string \<Rightarrow> response" where
  "solve_kmap sp var_names out_name minterms dontcares form_type =
     (if var_names = [] \<or> (minterms = [] \<and> dontcares = [])
      then (case update_kmap
                   (generate_kmap (if var_names = [] then [''a'', ''b'', ''c'', ''d''] else var_names)
                      [] [] out_name)
                   [] [] form_type of
              Inl e \<Rightarrow> unexpected e
            | Inr kd \<Rightarrow> Solution ''0'' kd)
      else if length var_names \<notin> {2, 3, 4}
      then Error_response (str_nat (length var_names) @ '' variables not supported (2-4 only).'') 400
      else (case symbols sp (join '','' var_names) of
              Inl e \<Rightarrow> unexpected e
            | Inr r \<Rightarrow>
                let variables = (case r of One_symbol s \<Rightarrow> [s] | Symbol_tuple ss \<Rightarrow> ss)
                in solve_groups sp variables var_names out_name minterms dontcares form_type))"


section \<open>Notions of the specification\<close>

subsection \<open>The grid\<close>

text \<open>The positions of the indices \<open>0, 1, 2, \<dots>\<close> in the grids of two, three and four
  variables, and the grid as a function of the values of the cells.\<close>

definition cell_table :: "nat \<Rightarrow> (nat \<times> nat) list" where
  "cell_table n =
     (if n = 2 then [(0, 0), (0, 1), (1, 0), (1, 1)]
      else if n = 3 then [(0, 0), (0, 1), (0, 3), (0, 2), (1, 0), (1, 1), (1, 3), (1, 2)]
      else [(0, 0), (0, 1), (0, 3), (0, 2), (1, 0), (1, 1), (1, 3), (1, 2),
            (3, 0), (3, 1), (3, 3), (3, 2), (2, 0), (2, 1), (2, 3), (2, 2)])"

definition grid_of :: "nat \<Rightarrow> (nat \<Rightarrow> string) \<Rightarrow> string list list" where
  "grid_of n v =
     (if n = 2 then [[v 0, v 1], [v 2, v 3]]
      else if n = 3 then [[v 0, v 1, v 3, v 2], [v 4, v 5, v 7, v 6]]
      else [[v 0, v 1, v 3, v 2], [v 4, v 5, v 7, v 6],
            [v 12, v 13, v 15, v 14], [v 8, v 9, v 11, v 10]])"

definition differ_in_one_bit :: "nat \<Rightarrow> nat \<Rightarrow> nat \<Rightarrow> bool" where
  "differ_in_one_bit n i j = (length (filter (\<lambda>k. bit i k \<noteq> bit j k) [0..<n]) = 1)"

definition cyclic_dist :: "nat \<Rightarrow> nat \<Rightarrow> nat \<Rightarrow> nat" where
  "cyclic_dist m a b = min ((a - b) + (b - a)) (m - ((a - b) + (b - a)))"

definition adjacent_cells :: "nat \<times> nat \<Rightarrow> nat \<times> nat \<Rightarrow> nat \<times> nat \<Rightarrow> bool" where
  "adjacent_cells dims p q =
     (cyclic_dist (fst dims) (fst p) (fst q) + cyclic_dist (snd dims) (snd p) (snd q) = 1)"

definition adjacency_table :: "nat \<Rightarrow> bool" where
  "adjacency_table n =
     list_all (\<lambda>i. list_all (\<lambda>j. differ_in_one_bit n i j \<longrightarrow>
        adjacent_cells (grid_dims n) (cell_table n ! i) (cell_table n ! j))
        [0..<2 ^ n]) [0..<2 ^ n]"

definition cell_at :: "exn + kmap_data option \<Rightarrow> nat \<times> nat \<Rightarrow> string option" where
  "cell_at res p =
     (case res of
        Inr (Some d) \<Rightarrow>
          if fst p < length (kmap d) \<and> snd p < length (kmap d ! fst p)
          then Some (kmap d ! fst p ! snd p) else None
      | _ \<Rightarrow> None)"

subsection \<open>Terms and their literals\<close>

text \<open>A literal of a term is a symbol or a negated symbol: the name of its variable and
  its polarity. The literals of a term of the minimizer are the arguments of the
  conjunction (or the term itself when it is a single literal). A list of literals is
  consistent when no variable occurs in it with both polarities.\<close>

fun literal :: "expr \<Rightarrow> (string \<times> bool) option" where
  "literal (Symbol v) = Some (v, True)"
| "literal (Not_expr (Symbol v)) = Some (v, False)"
| "literal e = None"

fun term_literals :: "expr \<Rightarrow> (string \<times> bool) option list" where
  "term_literals (And_expr as) = map literal as"
| "term_literals (Or_expr as) = map literal as"
| "term_literals t = [literal t]"

definition consistent :: "(string \<times> bool) list \<Rightarrow> bool" where
  "consistent lits =
     list_all (\<lambda>l. list_all (\<lambda>l'. fst l = fst l' \<longrightarrow> snd l = snd l') lits) lits"

text \<open>Index \<open>i\<close> agrees with a literal when, at every position of the variable list that
  holds the literal's variable, the bit of \<open>i\<close> equals the polarity. The variable at
  position \<open>k\<close> of \<open>n\<close> is bit \<open>n - 1 - k\<close> of the index (the first variable is the most
  significant bit).\<close>

definition literal_holds :: "string list \<Rightarrow> nat \<Rightarrow> string \<times> bool \<Rightarrow> bool" where
  "literal_holds variables i l =
     list_all (\<lambda>k. variables ! k = fst l \<longrightarrow> bit i (length variables - 1 - k) = snd l)
       [0..<length variables]"

definition spec_minterms :: "(string \<times> bool) list \<Rightarrow> string list \<Rightarrow> nat list" where
  "spec_minterms lits variables =
     filter (\<lambda>i. list_all (literal_holds variables i) lits) [0..<2 ^ length variables]"

subsection \<open>The term of a group\<close>

text \<open>The term of a group in the words of the specification: one literal for every bit
  position on which the whole group agrees, primed for a constant 0 under SOP and for a
  constant 1 under POS; no literal for the other positions.\<close>

definition spec_literal :: "nat list \<Rightarrow> string list \<Rightarrow> string \<Rightarrow> nat \<Rightarrow> string list" where
  "spec_literal grp variables form_type i =
     (let p = length variables - 1 - i in
      if list_all (\<lambda>m. bit m p) grp
      then [if form_type = ''SOP'' then variables ! i else variables ! i @ prime]
      else if list_all (\<lambda>m. \<not> bit m p) grp
      then [if form_type = ''SOP'' then variables ! i @ prime else variables ! i]
      else [])"

definition spec_group_term :: "nat list \<Rightarrow> string list \<Rightarrow> string \<Rightarrow> string" where
  "spec_group_term grp variables form_type =
     (let literals = concat (map (spec_literal grp variables form_type) [0..<length variables]) in
      if literals = [] then ''1''
      else if form_type = ''SOP'' then concat literals
      else ''('' @ join '' + '' literals @ '')'')"

subsection \<open>Reading a term back\<close>

text \<open>The literal that a part of the term of \<open>group_to_term\<close> denotes: a name followed
  by the prime is the negated symbol, any other name the symbol. The reading is faithful
  for variable names that do not themselves end in a prime.\<close>

definition literal_of_part :: "string \<Rightarrow> expr" where
  "literal_of_part s =
     (if s \<noteq> [] \<and> last s = CHR 0x27 then Not_expr (Symbol (butlast s)) else Symbol s)"

fun complement :: "expr \<Rightarrow> expr" where
  "complement (Not_expr a) = a"
| "complement e = Not_expr e"

definition plain_name :: "string \<Rightarrow> bool" where
  "plain_name v = (v = [] \<or> last v \<noteq> CHR 0x27)"

text \<open>The indices that a dictionary of required bits admits, the list of them, and the
  literals that the dictionary fixes on a variable list.\<close>

definition admits :: "(string \<rightharpoonup> nat) \<Rightarrow> string list \<Rightarrow> nat \<Rightarrow> bool" where
  "admits fv vs i =
     (\<forall>k<length vs. \<forall>b. fv (vs ! k) = Some b \<longrightarrow> of_bool (bit i (length vs - 1 - k)) = b)"

definition cube :: "(string \<rightharpoonup> nat) \<Rightarrow> string list \<Rightarrow> nat list" where
  "cube fv vs = filter (admits fv vs) [0..<2 ^ length vs]"

definition fixed_literals :: "(string \<rightharpoonup> nat) \<Rightarrow> string list \<Rightarrow> (string \<times> bool) list" where
  "fixed_literals fv vs =
     concat (map (\<lambda>k. case fv (vs ! k) of None \<Rightarrow> [] | Some b \<Rightarrow> [(vs ! k, b = 1)])
       [0..<length vs])"

subsection \<open>Explanations\<close>

text \<open>The positions of a group that count for its explanation: the minterms under SOP,
  the maxterms (the indices that are neither minterm nor don't-care) otherwise.\<close>

definition is_relevant :: "string \<Rightarrow> nat \<Rightarrow> int list \<Rightarrow> int list \<Rightarrow> nat \<Rightarrow> bool" where
  "is_relevant form_type n minterms dontcares m =
     (if form_type = ''SOP'' then int m \<in> set minterms
      else m < 2 ^ n \<and> int m \<notin> set minterms \<and> int m \<notin> set dontcares)"

definition spec_explanations ::
  "string \<Rightarrow> string list \<Rightarrow> int list \<Rightarrow> int list \<Rightarrow> nat list list \<Rightarrow> string list" where
  "spec_explanations form_type variables minterms dontcares gs =
     map (\<lambda>g. explanation (if form_type = ''SOP'' then ''1s'' else ''0s'')
                (sorted_list_of_set
                   (set (filter (is_relevant form_type (length variables) minterms dontcares) g)))
                (group_to_term g variables form_type))
       (filter (\<lambda>g. list_ex (is_relevant form_type (length variables) minterms dontcares) g) gs)"

text \<open>Readers of a response.\<close>

definition solution_of :: "response \<Rightarrow> string option" where
  "solution_of resp = (case resp of Solution s kd \<Rightarrow> Some s | Error_response m st \<Rightarrow> None)"

definition groups_of :: "response \<Rightarrow> nat list list option" where
  "groups_of resp = (case resp of Solution s kd \<Rightarrow> Some (groups kd) | Error_response m st \<Rightarrow> None)"

text \<open>The grid of the zero function over the given variables.\<close>

definition zero_kmap :: "string list \<Rightarrow> string \<Rightarrow> kmap_data" where
  "zero_kmap vs out =
     \<lparr>kmap = replicate (fst (grid_dims (length vs))) (replicate (snd (grid_dims (length vs))) ''0''),
      row_labels = axis_labels (take (length vs div 2) vs),
      col_labels = axis_labels (drop (length vs div 2) vs),
      row_vars = join '','' (take (length vs div 2) vs),
      col_vars = join '','' (drop (length vs div 2) vs),
      output_name = out\<rparr>"

subsection \<open>A collaborator for the examples\<close>

text \<open>A stand-in for sympy that the closed examples run against. It tabulates what
  \<^verbatim>\<open>symbols\<close>, \<^verbatim>\<open>SOPform\<close> and \<^verbatim>\<open>POSform\<close> return on a few inputs and raises on the
  others.\<close>

fun split_on :: "char \<Rightarrow> string \<Rightarrow> string list" where
  "split_on c [] = [[]]"
| "split_on c (x # xs) =
     (if x = c then [] # split_on c xs
      else (case split_on c xs of w # ws \<Rightarrow> (x # w) # ws | [] \<Rightarrow> [[x]]))"

definition example_SOPform :: "string list \<Rightarrow> int list \<Rightarrow> int list \<Rightarrow> exn + expr" where
  "example_SOPform vs ms ds =
     (if ms = [] then Inr BooleanFalse
      else if ms = map int [0..<2 ^ length vs] then Inr BooleanTrue
      else if vs = [''a'', ''b''] \<and> ms = [1, 3] \<and> ds = [] then Inr (Symbol ''b'')
      else if vs = [''a'', ''b''] \<and> ms = [0] \<and> ds = []
      then Inr (And_expr [Not_expr (Symbol ''a''), Not_expr (Symbol ''b'')])
      else Inl ''not tabulated'')"

definition example_POSform :: "string list \<Rightarrow> int list \<Rightarrow> int list \<Rightarrow> exn + expr" where
  "example_POSform vs ms ds =
     (if vs = [''a'', ''b''] \<and> ms = [1, 2, 3] \<and> ds = []
      then Inr (Or_expr [Symbol ''a'', Symbol ''b''])
      else Inl ''not tabulated'')"

definition example_sympy :: sympy where
  "example_sympy =
     \<lparr>symbols = (\<lambda>s. case split_on (CHR '','') s of
                        [x] \<Rightarrow> Inr (One_symbol x) | xs \<Rightarrow> Inr (Symbol_tuple xs)),
      SOPform = example_SOPform, POSform = example_POSform\<rparr>"


section \<open>Binary strings\<close>

lemma length_format_b_ge: "n \<le> length (format_b n i)"
  by (simp add: format_b_def Let_def)

lemma length_bin_digits_le: "i < 2 ^ n \<Longrightarrow> 0 < n \<Longrightarrow> length (bin_digits i) \<le> n"
proof (induction i arbitrary: n rule: bin_digits.induct)
  case (1 i)
  show ?case
  proof (cases "i < 2")
    case True
    then show ?thesis using "1.prems" by (subst bin_digits.simps) simp
  next
    case False
    then obtain m where n: "n = Suc m" and m: "0 < m"
      using "1.prems" by (cases n; cases "n - 1") auto
    have "i div 2 < 2 ^ m" using "1.prems" n by auto
    then have "length (bin_digits (i div 2)) \<le> m" using "1.IH" False m by simp
    then show ?thesis using False n by (subst bin_digits.simps) simp
  qed
qed

lemma length_format_b: "i < 2 ^ n \<Longrightarrow> 0 < n \<Longrightarrow> length (format_b n i) = n"
  using length_bin_digits_le[of i n] by (simp add: format_b_def Let_def)

lemma format_b_Suc:
  assumes "i < 2 ^ Suc n" "0 < n"
  shows "format_b (Suc n) i = format_b n (i div 2) @ [bit_char (i mod 2)]"
proof (cases "i < 2")
  case True
  have z: "bin_digits 0 = [bit_char 0]" by (subst bin_digits.simps) simp
  have "bin_digits i = [bit_char i]" using True by (subst bin_digits.simps) simp
  moreover have "replicate (n - Suc 0) CHR ''0'' @ [bit_char 0] = replicate n CHR ''0''"
    using assms(2) by (cases n) (simp_all add: bit_char_def replicate_append_same)
  ultimately show ?thesis using True z by (simp add: format_b_def)
next
  case False
  then have "bin_digits i = bin_digits (i div 2) @ [bit_char (i mod 2)]"
    by (subst bin_digits.simps) simp
  then show ?thesis by (simp add: format_b_def Let_def)
qed

lemma format_b_nth:
  "i < 2 ^ n \<Longrightarrow> k < n \<Longrightarrow> format_b n i ! k = bit_char (of_bool (bit i (n - 1 - k)))"
proof (induction n arbitrary: i k)
  case 0
  then show ?case by simp
next
  case (Suc n)
  show ?case
  proof (cases "n = 0")
    case True
    then have "i < 2" "k = 0" using Suc.prems by auto
    then have "format_b (Suc n) i = [bit_char i]"
      using True by (subst format_b_def, subst bin_digits.simps) simp
    moreover have "i = of_bool (bit i 0)" using \<open>i < 2\<close> by (cases "i = 0") (auto simp: bit_0)
    ultimately show ?thesis using True \<open>k = 0\<close> by simp
  next
    case False
    then have n: "0 < n" by simp
    have d: "i div 2 < 2 ^ n" using Suc.prems by auto
    have f: "format_b (Suc n) i = format_b n (i div 2) @ [bit_char (i mod 2)]"
      using format_b_Suc[OF Suc.prems(1) n] .
    have l: "length (format_b n (i div 2)) = n" using length_format_b[OF d n] .
    show ?thesis
    proof (cases "k < n")
      case True
      then have "format_b (Suc n) i ! k = format_b n (i div 2) ! k"
        using f l by (simp add: nth_append)
      also have "\<dots> = bit_char (of_bool (bit (i div 2) (n - 1 - k)))"
        using Suc.IH[OF d True] .
      also have "bit (i div 2) (n - 1 - k) = bit i (Suc (n - 1 - k))"
        by (simp add: bit_Suc)
      also have "Suc (n - 1 - k) = Suc n - 1 - k" using True by simp
      finally show ?thesis .
    next
      case False
      then have k: "k = n" using Suc.prems by simp
      have "format_b (Suc n) i ! k = bit_char (i mod 2)" using f l k by (simp add: nth_append)
      moreover have "i mod 2 = of_bool (bit i 0)" by (simp add: bit_0 mod2_eq_if)
      ultimately show ?thesis using k by simp
    qed
  qed
qed

lemma int_digit_bit_char: "int_digit (bit_char (of_bool b)) = of_bool b"
  by (cases b) (simp_all add: int_digit_def bit_char_def)


section \<open>The grid of generate_kmap\<close>

lemma upt_16: "[0..<16] = [0,1,2,3,4,5,6,7,8,9,10,11,12,13,14,15]"
  by (simp add: upt_rec)

lemma upt_8: "[0..<8] = [0,1,2,3,4,5,6,7]"
  by (simp add: upt_rec)

lemma upt_4: "[0..<4] = [0,1,2,3]"
  by (simp add: upt_rec)

lemma cell_pos_length: "length vs = length ws \<Longrightarrow> cell_pos vs i = cell_pos ws i"
  by (auto simp add: cell_pos_def Let_def)

lemma cell_table_closed_2: "map (cell_pos (replicate 2 [])) [0,1,2,3] = cell_table 2"
  by code_simp

lemma cell_table_closed_3: "map (cell_pos (replicate 3 [])) [0,1,2,3,4,5,6,7] = cell_table 3"
  by code_simp

lemma cell_table_closed_4:
  "map (cell_pos (replicate 4 [])) [0,1,2,3,4,5,6,7,8,9,10,11,12,13,14,15] = cell_table 4"
  by code_simp

lemma map_cell_pos:
  assumes "length vs \<in> {2, 3, 4}"
  shows "map (cell_pos vs) [0..<2 ^ length vs] = cell_table (length vs)"
proof -
  have "cell_pos vs = cell_pos (replicate (length vs) [])"
    by (intro ext cell_pos_length) simp
  then show ?thesis
    using assms cell_table_closed_2 cell_table_closed_3 cell_table_closed_4
    by (auto simp: upt_4 upt_8 upt_16)
qed

lemma cell_pos_table:
  assumes "length vs \<in> {2, 3, 4}" "i < 2 ^ length vs"
  shows "cell_pos vs i = cell_table (length vs) ! i"
proof -
  have "map (cell_pos vs) [0..<2 ^ length vs] ! i = cell_table (length vs) ! i"
    using map_cell_pos[OF assms(1)] by simp
  then show ?thesis using assms(2) by simp
qed

lemma kmap_loop_2:
  assumes "length vs = 2"
  shows "kmap_loop vs t [0..<4] (replicate 2 (replicate 2 ''0'')) =
     Inr [[cell_value t 0, cell_value t 1],
          [cell_value t 2, cell_value t 3]]"
proof -
  have "map (cell_pos vs) [0..<4] = cell_table 2"
    using map_cell_pos[of vs] assms by simp
  then show ?thesis
    by (simp add: upt_4 cell_table_def set_cell_def numeral_eq_Suc)
qed

lemma kmap_loop_3:
  assumes "length vs = 3"
  shows "kmap_loop vs t [0..<8] (replicate 2 (replicate 4 ''0'')) =
     Inr [[cell_value t 0, cell_value t 1, cell_value t 3, cell_value t 2],
          [cell_value t 4, cell_value t 5, cell_value t 7, cell_value t 6]]"
proof -
  have "map (cell_pos vs) [0..<8] = cell_table 3"
    using map_cell_pos[of vs] assms by simp
  then show ?thesis
    by (simp add: upt_8 cell_table_def set_cell_def numeral_eq_Suc)
qed

lemma kmap_loop_4:
  assumes "length vs = 4"
  shows "kmap_loop vs t [0..<16] (replicate 4 (replicate 4 ''0'')) =
     Inr [[cell_value t 0, cell_value t 1, cell_value t 3, cell_value t 2],
          [cell_value t 4, cell_value t 5, cell_value t 7, cell_value t 6],
          [cell_value t 12, cell_value t 13, cell_value t 15, cell_value t 14],
          [cell_value t 8, cell_value t 9, cell_value t 11, cell_value t 10]]"
proof -
  have "map (cell_pos vs) [0..<16] = cell_table 4"
    using map_cell_pos[of vs] assms by simp
  then show ?thesis
    by (simp add: upt_16 cell_table_def set_cell_def numeral_eq_Suc)
qed

lemma generate_kmap_grid:
  assumes "length vs \<in> {2, 3, 4}"
  shows "generate_kmap vs ms ds out =
     Inr (Some \<lparr>kmap = grid_of (length vs) (cell_value (all_terms ms ds)),
                row_labels = axis_labels (take (length vs div 2) vs),
                col_labels = axis_labels (drop (length vs div 2) vs),
                row_vars = join '','' (take (length vs div 2) vs),
                col_vars = join '','' (drop (length vs div 2) vs),
                output_name = out\<rparr>)"
proof -
  consider "length vs = 2" | "length vs = 3" | "length vs = 4" using assms by auto
  then show ?thesis
  proof cases
    case 1
    then show ?thesis
      using kmap_loop_2[OF 1] by (simp add: generate_kmap_def grid_dims_def grid_of_def Let_def)
  next
    case 2
    then show ?thesis
      using kmap_loop_3[OF 2] by (simp add: generate_kmap_def grid_dims_def grid_of_def Let_def)
  next
    case 3
    then show ?thesis
      using kmap_loop_4[OF 3] by (simp add: generate_kmap_def grid_dims_def grid_of_def Let_def)
  qed
qed

lemma grid_of_cell:
  assumes "n \<in> {2, 3, 4}" "i < 2 ^ n"
  shows "grid_of n v ! fst (cell_table n ! i) ! snd (cell_table n ! i) = v i"
proof -
  have "list_all (\<lambda>i. grid_of n v ! fst (cell_table n ! i) ! snd (cell_table n ! i) = v i)
          [0..<2 ^ n]"
    using assms(1) by (auto simp: upt_4 upt_8 upt_16 grid_of_def cell_table_def)
  then show ?thesis using assms(2) by (simp add: list_all_iff)
qed

lemma grid_of_const:
  assumes "n \<in> {2, 3, 4}"
  shows "grid_of n (\<lambda>i. c) = replicate (fst (grid_dims n)) (replicate (snd (grid_dims n)) c)"
  using assms by (auto simp: grid_of_def grid_dims_def numeral_eq_Suc)

lemma adjacency_table_2: "adjacency_table 2"
  by code_simp

lemma adjacency_table_3: "adjacency_table 3"
  by code_simp

lemma adjacency_table_4: "adjacency_table 4"
  by code_simp



section \<open>Claims about the grid\<close>

text \<open>
  Claim C5. For two, three or four variables, any two indices below \<open>2 ^ n\<close> that differ
  in exactly one of their \<open>n\<close> bits are placed by \<open>generate_kmap\<close> on cells at distance
  one, where the distance is the sum of the row and column distances and each of the two
  wraps around the edge of the grid.
\<close>

theorem grid_adjacency:
  assumes "length variables \<in> {2, 3, 4}"
    and "i < 2 ^ length variables" and "j < 2 ^ length variables"
    and "differ_in_one_bit (length variables) i j"
  shows "adjacent_cells (grid_dims (length variables)) (cell_pos variables i) (cell_pos variables j)"
proof -
  have "adjacency_table (length variables)"
    using assms(1) adjacency_table_2 adjacency_table_3 adjacency_table_4 by auto
  then have "adjacent_cells (grid_dims (length variables))
      (cell_table (length variables) ! i) (cell_table (length variables) ! j)"
    using assms(2-4) unfolding adjacency_table_def list_all_iff by simp
  then show ?thesis
    using cell_pos_table[OF assms(1)] assms(2,3) by simp
qed

theorem grid_adjacency_witness:
  "length [''a'', ''b'', ''c'', ''d''] \<in> {2, 3, 4::nat}
   \<and> (2::nat) < 2 ^ length [''a'', ''b'', ''c'', ''d'']
   \<and> (10::nat) < 2 ^ length [''a'', ''b'', ''c'', ''d'']
   \<and> differ_in_one_bit (length [''a'', ''b'', ''c'', ''d'']) 2 10
   \<and> adjacent_cells (grid_dims (length [''a'', ''b'', ''c'', ''d'']))
        (cell_pos [''a'', ''b'', ''c'', ''d''] 2) (cell_pos [''a'', ''b'', ''c'', ''d''] 10)"
proof -
  have h1: "length [''a'', ''b'', ''c'', ''d''] \<in> {2, 3, 4::nat}" by simp
  have h2: "(2::nat) < 2 ^ length [''a'', ''b'', ''c'', ''d'']" by simp
  have h3: "(10::nat) < 2 ^ length [''a'', ''b'', ''c'', ''d'']" by simp
  have h4: "differ_in_one_bit (length [''a'', ''b'', ''c'', ''d'']) 2 10" by code_simp
  show ?thesis using h1 h2 h3 h4 grid_adjacency[OF h1 h2 h3 h4] by blast
qed

lemma cell_at_generate_kmap:
  assumes "length vs \<in> {2, 3, 4}" "i < 2 ^ length vs"
  shows "cell_at (generate_kmap vs ms ds out) (cell_pos vs i) = Some (cell_value (all_terms ms ds) i)"
proof -
  let ?n = "length vs"
  have "list_all (\<lambda>i. fst (cell_table ?n ! i) < length (grid_of ?n v)
          \<and> snd (cell_table ?n ! i) < length (grid_of ?n v ! fst (cell_table ?n ! i)))
          [0..<2 ^ ?n]" for v :: "nat \<Rightarrow> string"
    using assms(1) by (auto simp: upt_4 upt_8 upt_16 grid_of_def cell_table_def)
  then have "fst (cell_table ?n ! i) < length (grid_of ?n v)
          \<and> snd (cell_table ?n ! i) < length (grid_of ?n v ! fst (cell_table ?n ! i))"
    for v :: "nat \<Rightarrow> string"
    using assms(2) by (simp add: list_all_iff)
  then show ?thesis
    using grid_of_cell[OF assms] cell_pos_table[OF assms]
    by (simp add: generate_kmap_grid[OF assms(1)] cell_at_def)
qed

lemma bij_betw_cell_table:
  assumes "n \<in> {2, 3, 4}"
  shows "bij_betw (\<lambda>i. cell_table n ! i) {0..<2 ^ n} ({0..<fst (grid_dims n)} \<times> {0..<snd (grid_dims n)})"
proof -
  let ?B = "{0..<fst (grid_dims n)} \<times> {0..<snd (grid_dims n)}"
  consider "n = 2" | "n = 3" | "n = 4" using assms by auto
  then have d: "distinct (cell_table n)"
    by cases (simp_all add: cell_table_def)
  have l: "length (cell_table n) = 2 ^ n"
    using assms by (auto simp: cell_table_def)
  have "list_all (\<lambda>p. fst p < fst (grid_dims n) \<and> snd p < snd (grid_dims n)) (cell_table n)"
    using assms by (auto simp: cell_table_def grid_dims_def)
  then have sub: "set (cell_table n) \<subseteq> ?B"
    by (auto simp: list_all_iff)
  have "card ?B = 2 ^ n"
    using assms by (auto simp: grid_dims_def)
  moreover have "card (set (cell_table n)) = 2 ^ n"
    using d l by (simp add: distinct_card)
  ultimately have s: "set (cell_table n) = ?B"
    using sub by (intro card_subset_eq) simp_all
  have "bij_betw (\<lambda>i. cell_table n ! i) {..<length (cell_table n)} (set (cell_table n))"
    using d by (rule bij_betw_nth) simp_all
  then show ?thesis using l s by (simp add: lessThan_atLeast0)
qed

text \<open>
  Claim C10. For two, three or four variables the position that \<open>generate_kmap\<close> computes
  for an index is a bijection from the indices below \<open>2 ^ n\<close> onto the cells of the grid,
  and the finished grid holds at the position of every index the value of that index: no
  cell is written for two indices.
\<close>

theorem cell_pos_bijection:
  assumes "length variables \<in> {2, 3, 4}"
  shows "bij_betw (cell_pos variables) {0..<2 ^ length variables}
           ({0..<fst (grid_dims (length variables))} \<times> {0..<snd (grid_dims (length variables))})
         \<and> (\<forall>i<2 ^ length variables.
              cell_at (generate_kmap variables minterms dontcares out_name) (cell_pos variables i)
              = Some (cell_value (all_terms minterms dontcares) i))"
proof
  have "bij_betw (\<lambda>i. cell_table (length variables) ! i) {0..<2 ^ length variables}
           ({0..<fst (grid_dims (length variables))} \<times> {0..<snd (grid_dims (length variables))})"
    using assms by (rule bij_betw_cell_table)
  moreover have "\<forall>i\<in>{0..<2 ^ length variables}. cell_table (length variables) ! i = cell_pos variables i"
    using cell_pos_table[OF assms] by simp
  ultimately show "bij_betw (cell_pos variables) {0..<2 ^ length variables}
           ({0..<fst (grid_dims (length variables))} \<times> {0..<snd (grid_dims (length variables))})"
    using bij_betw_cong by fast
next
  show "\<forall>i<2 ^ length variables.
      cell_at (generate_kmap variables minterms dontcares out_name) (cell_pos variables i)
      = Some (cell_value (all_terms minterms dontcares) i)"
    using cell_at_generate_kmap[OF assms] by blast
qed

theorem cell_pos_bijection_witness:
  "length [''a'', ''b''] \<in> {2, 3, 4::nat}
   \<and> bij_betw (cell_pos [''a'', ''b'']) {0..<2 ^ length [''a'', ''b'']}
         ({0..<fst (grid_dims (length [''a'', ''b'']))}
          \<times> {0..<snd (grid_dims (length [''a'', ''b'']))})
   \<and> cell_at (generate_kmap [''a'', ''b''] [1] [2] ''f'') (cell_pos [''a'', ''b''] 2) = Some ''X''"
proof -
  have h: "length [''a'', ''b''] \<in> {2, 3, 4::nat}"
    by simp
  have v: "cell_value (all_terms [1] [2]) 2 = ''X''"
    by (simp add: cell_value_def all_terms_def)
  show ?thesis
    using h v cell_pos_bijection[OF h, of "[1]" "[2]" "''f''"] by simp
qed

lemma cell_value_empty: "cell_value (all_terms [] []) = (\<lambda>i. ''0'')"
  by (simp add: cell_value_def all_terms_def fun_eq_iff)

lemma generate_kmap_empty:
  assumes "length vs \<in> {2, 3, 4}"
  shows "generate_kmap vs [] [] out = Inr (Some (zero_kmap vs out))"
  using assms grid_of_const[OF assms]
  by (simp add: generate_kmap_grid[OF assms] cell_value_empty zero_kmap_def)


section \<open>Claims about solve_kmap\<close>

text \<open>
  Claim C8. With two, three or four variable names and no minterm and no don't-care,
  \<open>solve_kmap\<close> answers with the solution \<open>0\<close>, no group, no explanation and a grid of
  the size of the variable count whose cells are all \<open>0\<close>.
\<close>

theorem empty_request_zero_function:
  assumes "length var_names \<in> {2, 3, 4}"
  shows "solve_kmap sp var_names out_name [] [] form_type =
     Solution ''0'' \<lparr>kmap_of = zero_kmap var_names out_name, groups = [], explanations = [],
                      form_type_of = form_type\<rparr>"
proof -
  have "var_names \<noteq> []" using assms by auto
  then show ?thesis
    by (simp add: solve_kmap_def generate_kmap_empty[OF assms] update_kmap_def)
qed

theorem empty_request_zero_function_witness:
  "length [''a'', ''b'', ''c''] \<in> {2, 3, 4::nat}
   \<and> solve_kmap example_sympy [''a'', ''b'', ''c''] ''f'' [] [] ''SOP'' =
     Solution ''0''
       \<lparr>kmap_of = \<lparr>kmap = [[''0'', ''0'', ''0'', ''0''], [''0'', ''0'', ''0'', ''0'']],
                   row_labels = [''0'', ''1''], col_labels = [''00'', ''01'', ''11'', ''10''],
                   row_vars = ''a'', col_vars = ''b,c'', output_name = ''f''\<rparr>,
        groups = [], explanations = [], form_type_of = ''SOP''\<rparr>"
proof -
  have h: "length [''a'', ''b'', ''c''] \<in> {2, 3, 4::nat}"
    by simp
  have z: "zero_kmap [''a'', ''b'', ''c''] ''f'' =
      \<lparr>kmap = [[''0'', ''0'', ''0'', ''0''], [''0'', ''0'', ''0'', ''0'']],
       row_labels = [''0'', ''1''], col_labels = [''00'', ''01'', ''11'', ''10''],
       row_vars = ''a'', col_vars = ''b,c'', output_name = ''f''\<rparr>"
    by code_simp
  show ?thesis
    using h empty_request_zero_function[OF h, of example_sympy "''f''" "''SOP''"]
    by (simp add: z)
qed

lemma generate_kmap_None: "length vs \<notin> {2, 3, 4} \<Longrightarrow> generate_kmap vs ms ds out = Inr None"
  by (simp add: generate_kmap_def)

lemma generate_kmap_default:
  "generate_kmap [''a'', ''b'', ''c'', ''d''] [] [] out =
     Inr (Some (zero_kmap [''a'', ''b'', ''c'', ''d''] out))"
  by (rule generate_kmap_empty) simp

text \<open>
  Claim C7, as stated, fails: with no variable name at all the answer is the zero function
  over the default variables \<open>a, b, c, d\<close>, and with five names and neither minterms nor
  don't-cares the request ends in the handler of unexpected errors with status 500.
\<close>

theorem variable_count_error_counterexample:
  "solve_kmap example_sympy [] ''f'' [1] [] ''SOP'' =
     Solution ''0''
       \<lparr>kmap_of = \<lparr>kmap = [[''0'', ''0'', ''0'', ''0''], [''0'', ''0'', ''0'', ''0''],
                           [''0'', ''0'', ''0'', ''0''], [''0'', ''0'', ''0'', ''0'']],
                   row_labels = [''00'', ''01'', ''11'', ''10''],
                   col_labels = [''00'', ''01'', ''11'', ''10''],
                   row_vars = ''a,b'', col_vars = ''c,d'', output_name = ''f''\<rparr>,
        groups = [], explanations = [], form_type_of = ''SOP''\<rparr>
   \<and> solve_kmap example_sympy [''a'', ''b'', ''c'', ''d'', ''e''] ''f'' [] [] ''SOP'' =
     Error_response
       (''An unexpected server error occurred: '' @ prime @ ''NoneType'' @ prime
        @ '' object has no attribute '' @ prime @ ''update'' @ prime) 500"
proof -
  have z: "zero_kmap [''a'', ''b'', ''c'', ''d''] ''f'' =
      \<lparr>kmap = [[''0'', ''0'', ''0'', ''0''], [''0'', ''0'', ''0'', ''0''],
               [''0'', ''0'', ''0'', ''0''], [''0'', ''0'', ''0'', ''0'']],
       row_labels = [''00'', ''01'', ''11'', ''10''],
       col_labels = [''00'', ''01'', ''11'', ''10''],
       row_vars = ''a,b'', col_vars = ''c,d'', output_name = ''f''\<rparr>"
    by code_simp
  have n: "generate_kmap [''a'', ''b'', ''c'', ''d'', ''e''] [] [] ''f'' = Inr None"
    by (rule generate_kmap_None) simp
  show ?thesis
    by (simp add: solve_kmap_def generate_kmap_default z n update_kmap_def unexpected_def)
qed

text \<open>
  Claim C7, amended. A request with at least one variable name, a number of names other
  than two, three and four, and at least one minterm or don't-care is answered with status
  400 and the message that gives the number of names followed by
  \<open>variables not supported (2-4 only).\<close>; a request with no variable name is answered
  with the zero function over \<open>a, b, c, d\<close>.
\<close>

theorem variable_count_error:
  "(var_names \<noteq> [] \<and> length var_names \<notin> {2, 3, 4} \<and> \<not> (minterms = [] \<and> dontcares = [])
      \<longrightarrow> solve_kmap sp var_names out_name minterms dontcares form_type =
          Error_response (str_nat (length var_names) @ '' variables not supported (2-4 only).'') 400)
   \<and> solve_kmap sp [] out_name minterms dontcares form_type =
       Solution ''0'' \<lparr>kmap_of = zero_kmap [''a'', ''b'', ''c'', ''d''] out_name,
                        groups = [], explanations = [], form_type_of = form_type\<rparr>"
  by (simp add: solve_kmap_def generate_kmap_default update_kmap_def)

theorem variable_count_error_witness:
  "[''a'', ''b'', ''c'', ''d'', ''e''] \<noteq> []
   \<and> length [''a'', ''b'', ''c'', ''d'', ''e''] \<notin> {2, 3, 4::nat}
   \<and> \<not> ([5::int] = [] \<and> ([]::int list) = [])
   \<and> solve_kmap example_sympy [''a'', ''b'', ''c'', ''d'', ''e''] ''f'' [5] [] ''SOP'' =
       Error_response ''5 variables not supported (2-4 only).'' 400"
proof -
  have s: "str_nat (length [''a'', ''b'', ''c'', ''d'', ''e'']) = ''5''"
    by code_simp
  show ?thesis
    using s variable_count_error[of "[''a'', ''b'', ''c'', ''d'', ''e'']" "[5]" "[]"
        example_sympy "''f''" "''SOP''"]
    by simp
qed

text \<open>
  Claim C6, as stated, fails: index 0 listed both as a minterm and as a don't-care gives
  the cell \<open>X\<close>, not \<open>1\<close>.
\<close>

theorem dontcare_precedence_counterexample:
  "cell_at (generate_kmap [''a'', ''b''] [0] [0] ''f'') (cell_pos [''a'', ''b''] 0) = Some ''X''
   \<and> cell_at (generate_kmap [''a'', ''b''] [0] [0] ''f'') (cell_pos [''a'', ''b''] 0) \<noteq> Some ''1''"
  by code_simp

lemma cell_value_dontcare: "int i \<in> set ds \<Longrightarrow> cell_value (all_terms ms ds) i = ''X''"
proof -
  assume "int i \<in> set ds"
  then have "map_of (map (\<lambda>d. (d, ''X'')) ds) (int i) = Some ''X''"
    by (induction ds) auto
  then show ?thesis
    by (simp add: cell_value_def all_terms_def map_add_def)
qed

text \<open>
  Claim C6, amended. For two, three or four variables, the cell of every index that is
  listed both as a minterm and as a don't-care holds \<open>X\<close>: the don't-care is written
  last into the dictionary and takes precedence.
\<close>

theorem dontcare_precedence:
  assumes "length variables \<in> {2, 3, 4}" and "i < 2 ^ length variables"
    and "int i \<in> set minterms" and "int i \<in> set dontcares"
  shows "cell_at (generate_kmap variables minterms dontcares out_name) (cell_pos variables i)
           = Some ''X''"
  using cell_at_generate_kmap[OF assms(1,2)] cell_value_dontcare[OF assms(4)] by simp

theorem dontcare_precedence_witness:
  "length [''a'', ''b'', ''c''] \<in> {2, 3, 4::nat} \<and> (5::nat) < 2 ^ length [''a'', ''b'', ''c'']
   \<and> int 5 \<in> set [1, 5] \<and> int 5 \<in> set [5, 6]
   \<and> cell_at (generate_kmap [''a'', ''b'', ''c''] [1, 5] [5, 6] ''f'')
        (cell_pos [''a'', ''b'', ''c''] 5) = Some ''X''"
proof -
  have h1: "length [''a'', ''b'', ''c''] \<in> {2, 3, 4::nat}"
    by simp
  have h2: "(5::nat) < 2 ^ length [''a'', ''b'', ''c'']"
    by simp
  have h3: "int 5 \<in> set [1, 5]"
    by simp
  have h4: "int 5 \<in> set [5, 6]"
    by simp
  show ?thesis
    using h1 h2 h3 h4 dontcare_precedence[OF h1 h2 h3 h4] by blast
qed

text \<open>
  Claim C4. When \<^verbatim>\<open>SOPform\<close> returns sympy's constant \<^verbatim>\<open>true\<close>, the list of groups is
  empty and the solution string is \<open>True\<close>: the identity test of \<open>format_sympy_expr\<close>
  does not recognise sympy's constant, which is then printed by \<^verbatim>\<open>str\<close>.
\<close>

theorem true_constant_solution:
  assumes "length var_names \<in> {2, 3, 4}" and "\<not> (minterms = [] \<and> dontcares = [])"
    and "symbols sp (join '','' var_names) = Inr r"
    and "SOPform sp (case r of One_symbol s \<Rightarrow> [s] | Symbol_tuple ss \<Rightarrow> ss) minterms dontcares
           = Inr BooleanTrue"
  shows "solution_of (solve_kmap sp var_names out_name minterms dontcares ''SOP'') = Some ''True''
       \<and> groups_of (solve_kmap sp var_names out_name minterms dontcares ''SOP'') = Some []"
proof -
  have ne: "var_names \<noteq> []" using assms(1) by auto
  have f: "format_sympy_expr BooleanTrue var_names ''SOP'' = ''True''"
  proof -
    have r: "replace_from (c # old) new s = s" if "c \<notin> set s" for c old new s
      using that
    proof (induction s)
      case Nil
      then show ?case by (subst replace_from.simps) simp
    next
      case (Cons x xs)
      then show ?case by (subst replace_from.simps) auto
    qed
    have t: "fold (\<lambda>var s. replace s (CHR ''~'' # var) (var @ prime)) vs ''True'' = ''True''" for vs
      by (induction vs) (simp_all add: replace_def r)
    show ?thesis
      by (simp add: format_sympy_expr_def t) (simp add: replace_def r)
  qed
  show ?thesis
    using assms ne
    by (cases r) (simp_all add: solve_kmap_def solve_groups_def finish_def f update_kmap_def
        generate_kmap_grid get_implicant_groups_def solution_of_def groups_of_def)
qed

theorem true_constant_solution_witness:
  "length [''a'', ''b'', ''c''] \<in> {2, 3, 4::nat}
   \<and> \<not> ([0, 1, 2, 3, 4, 5, 6, 7::int] = [] \<and> ([]::int list) = [])
   \<and> symbols example_sympy (join '','' [''a'', ''b'', ''c''])
       = Inr (Symbol_tuple [''a'', ''b'', ''c''])
   \<and> SOPform example_sympy [''a'', ''b'', ''c''] [0, 1, 2, 3, 4, 5, 6, 7] [] = Inr BooleanTrue
   \<and> solution_of (solve_kmap example_sympy [''a'', ''b'', ''c''] ''f''
         [0, 1, 2, 3, 4, 5, 6, 7] [] ''SOP'') = Some ''True''
   \<and> groups_of (solve_kmap example_sympy [''a'', ''b'', ''c''] ''f''
         [0, 1, 2, 3, 4, 5, 6, 7] [] ''SOP'') = Some []"
proof -
  have h1: "length [''a'', ''b'', ''c''] \<in> {2, 3, 4::nat}"
    by simp
  have h2: "\<not> ([0, 1, 2, 3, 4, 5, 6, 7::int] = [] \<and> ([]::int list) = [])"
    by simp
  have h3: "symbols example_sympy (join '','' [''a'', ''b'', ''c''])
      = Inr (Symbol_tuple [''a'', ''b'', ''c''])"
    by (simp add: example_sympy_def)
  have h4: "SOPform example_sympy
      (case Symbol_tuple [''a'', ''b'', ''c''] of One_symbol s \<Rightarrow> [s] | Symbol_tuple ss \<Rightarrow> ss)
      [0, 1, 2, 3, 4, 5, 6, 7] [] = Inr BooleanTrue"
    by (simp add: example_sympy_def example_SOPform_def upt_8)
  show ?thesis
    using h1 h2 h3 h4 true_constant_solution[OF h1 h2 h3 h4, of "''f''"] by simp
qed

lemma explain_loop_eq:
  "explain_loop gs T vs ft name acc =
     acc @ map (\<lambda>g. explanation name (relevant_terms g T) (group_to_term g vs ft))
             (filter (\<lambda>g. relevant_terms g T \<noteq> []) gs)"
  by (induction gs arbitrary: acc) simp_all

lemma distinct_get_minterms_for_term: "distinct (get_minterms_for_term t vs)"
  by (simp add: get_minterms_for_term_def Let_def)

lemma distinct_get_implicant_groups:
  "g \<in> set (get_implicant_groups e vs) \<Longrightarrow> distinct g"
  by (auto simp: get_implicant_groups_def Let_def distinct_get_minterms_for_term
      split: if_splits)

lemma relevant_terms_sorted_list:
  assumes "distinct g"
  shows "relevant_terms g T = sorted_list_of_set (set (filter (\<lambda>m. int m \<in> set T) g))"
proof -
  have "distinct (filter (\<lambda>m. int m \<in> set T) g)"
    using assms by simp
  then show ?thesis
    unfolding relevant_terms_def
    by (simp only: sorted_list_of_set_sort_remdups distinct_remdups_id)
qed

lemma relevant_terms_Nil: "relevant_terms g T \<noteq> [] \<longleftrightarrow> list_ex (\<lambda>m. int m \<in> set T) g"
proof -
  have "relevant_terms g T = [] \<longleftrightarrow> filter (\<lambda>m. int m \<in> set T) g = []"
    unfolding relevant_terms_def by (metis length_sort length_0_conv)
  then show ?thesis by (auto simp: filter_empty_conv list_ex_iff)
qed

lemma explain_loop_spec:
  assumes "\<forall>g\<in>set gs. distinct g"
    and "\<forall>m. int m \<in> set T \<longleftrightarrow> is_relevant ft (length vs) ms ds m"
    and "name = (if ft = ''SOP'' then ''1s'' else ''0s'')"
  shows "explain_loop gs T vs ft name [] = spec_explanations ft vs ms ds gs"
proof -
  have p: "(\<lambda>m. int m \<in> set T) = is_relevant ft (length vs) ms ds"
    using assms(2) by auto
  have "map (\<lambda>g. explanation name (relevant_terms g T) (group_to_term g vs ft))
             (filter (\<lambda>g. relevant_terms g T \<noteq> []) gs)
      = map (\<lambda>g. explanation name
                (sorted_list_of_set (set (filter (is_relevant ft (length vs) ms ds) g)))
                (group_to_term g vs ft))
             (filter (\<lambda>g. relevant_terms g T \<noteq> []) gs)"
    using assms(1) by (intro map_cong refl) (simp add: relevant_terms_sorted_list p)
  then show ?thesis
    by (simp add: explain_loop_eq spec_explanations_def relevant_terms_Nil p assms(3))
qed

lemma maxterms_of_iff:
  "int m \<in> set (maxterms_of n ms ds) \<longleftrightarrow> m < 2 ^ n \<and> int m \<notin> set ms \<and> int m \<notin> set ds"
  by (auto simp: maxterms_of_def)

lemma finish_explanations:
  assumes "finish vs var_names out ms ds ft e gs T name = Solution s kd"
  shows "groups kd = gs \<and> explanations kd = explain_loop gs T vs ft name []"
  using assms
  by (auto simp: finish_def Let_def update_kmap_def unexpected_def
      split: sum.splits option.splits)

lemma solve_groups_explanations:
  assumes "solve_groups sp vs var_names out ms ds ft = Solution s kd"
  shows "explanations kd = spec_explanations ft vs ms ds (groups kd)"
proof (cases "ft = ''SOP''")
  case True
  then obtain e where e: "SOPform sp vs ms ds = Inr e"
    and f: "finish vs var_names out ms ds ft e (get_implicant_groups e vs) ms ''1s'' = Solution s kd"
    using assms by (auto simp: solve_groups_def unexpected_def split: sum.splits)
  show ?thesis
    using finish_explanations[OF f] True
    by (simp add: explain_loop_spec[where ms = ms and ds = ds] distinct_get_implicant_groups
        is_relevant_def)
next
  case False
  then obtain e z where
    f: "finish vs var_names out ms ds ft e (get_implicant_groups z vs)
          (maxterms_of (length vs) ms ds) ''0s'' = Solution s kd"
    using assms by (auto simp: solve_groups_def unexpected_def Let_def split: sum.splits)
  show ?thesis
    using finish_explanations[OF f] False
    by (simp add: explain_loop_spec[where ms = ms and ds = ds] distinct_get_implicant_groups
        is_relevant_def maxterms_of_iff)
qed

text \<open>
  Claim C9. In every successful response the explanations are, in the order of the groups,
  those of the groups that contain a relevant position (a minterm under SOP, a maxterm
  under POS); each names the relevant positions of its group in ascending order and the
  term of the whole group. A group without relevant position stays in the list of groups
  and has no explanation.
\<close>

theorem explanations_follow_groups:
  assumes "solve_kmap sp var_names out_name minterms dontcares form_type = Solution s kd"
    and "symbols sp (join '','' var_names) = Inr r"
  shows "explanations kd =
           spec_explanations form_type (case r of One_symbol x \<Rightarrow> [x] | Symbol_tuple xs \<Rightarrow> xs)
             minterms dontcares (groups kd)"
proof (cases "var_names = [] \<or> (minterms = [] \<and> dontcares = [])")
  case True
  then have "groups kd = [] \<and> explanations kd = []"
    using assms(1)
    by (auto simp: solve_kmap_def update_kmap_def unexpected_def split: sum.splits option.splits)
  then show ?thesis by (simp add: spec_explanations_def)
next
  case False
  then have "solve_groups sp (case r of One_symbol x \<Rightarrow> [x] | Symbol_tuple xs \<Rightarrow> xs)
      var_names out_name minterms dontcares form_type = Solution s kd"
    using assms by (auto simp: solve_kmap_def Let_def split: if_splits)
  then show ?thesis by (rule solve_groups_explanations)
qed


theorem explanations_follow_groups_witness:
  "solve_kmap example_sympy [''a'', ''b''] ''f'' [1, 3] [] ''SOP'' =
     Solution ''b''
       \<lparr>kmap_of = \<lparr>kmap = [[''0'', ''1''], [''0'', ''1'']],
                   row_labels = [''0'', ''1''], col_labels = [''0'', ''1''],
                   row_vars = ''a'', col_vars = ''b'', output_name = ''f''\<rparr>,
        groups = [[1, 3]],
        explanations = [''A group is formed around the 1s at positions <strong>[1, 3]</strong>. This simplifies to the term <code>b</code>.''],
        form_type_of = ''SOP''\<rparr>
   \<and> symbols example_sympy (join '','' [''a'', ''b'']) = Inr (Symbol_tuple [''a'', ''b''])
   \<and> [''A group is formed around the 1s at positions <strong>[1, 3]</strong>. This simplifies to the term <code>b</code>.'']
       = spec_explanations ''SOP'' [''a'', ''b''] [1, 3] [] [[1, 3]]"
proof -
  have h1: "solve_kmap example_sympy [''a'', ''b''] ''f'' [1, 3] [] ''SOP'' =
     Solution ''b''
       \<lparr>kmap_of = \<lparr>kmap = [[''0'', ''1''], [''0'', ''1'']],
                   row_labels = [''0'', ''1''], col_labels = [''0'', ''1''],
                   row_vars = ''a'', col_vars = ''b'', output_name = ''f''\<rparr>,
        groups = [[1, 3]],
        explanations = [''A group is formed around the 1s at positions <strong>[1, 3]</strong>. This simplifies to the term <code>b</code>.''],
        form_type_of = ''SOP''\<rparr>"
    by code_simp
  have h2: "symbols example_sympy (join '','' [''a'', ''b'']) = Inr (Symbol_tuple [''a'', ''b''])"
    by (simp add: example_sympy_def)
  show ?thesis
    using h1 h2 explanations_follow_groups[OF h1 h2] by simp
qed


section \<open>Claims about get_minterms_for_term and group_to_term\<close>

lemma term_literals_args: "term_literals t = map literal (term_args t)"
  by (cases t) (simp_all add: term_args_def)

lemma fixed_vars_loop_literal:
  "literal a = Some l \<Longrightarrow>
   fixed_vars_loop (a # as) fv = fixed_vars_loop as (fv(fst l \<mapsto> of_bool (snd l)))"
  by (cases a rule: literal.cases) auto

lemma fixed_vars_loop_literals:
  "map literal as = map Some lits \<Longrightarrow>
   fixed_vars_loop as fv = fv ++ map_of (rev (map (\<lambda>l. (fst l, of_bool (snd l))) lits))"
proof (induction as arbitrary: lits fv)
  case Nil
  then show ?case by simp
next
  case (Cons a as)
  then obtain l lits' where l: "lits = l # lits'" "literal a = Some l"
    "map literal as = map Some lits'"
    by (cases lits) auto
  have "fixed_vars_loop (a # as) fv = fixed_vars_loop as (fv(fst l \<mapsto> of_bool (snd l)))"
    using l(2) by (rule fixed_vars_loop_literal)
  also have "\<dots> = fv(fst l \<mapsto> of_bool (snd l))
                 ++ map_of (rev (map (\<lambda>l. (fst l, of_bool (snd l))) lits'))"
    using Cons.IH[OF l(3)] .
  also have "\<dots> = fv ++ map_of (rev (map (\<lambda>l. (fst l, of_bool (snd l))) lits))"
    by (simp add: l(1) map_add_upd_left fun_eq_iff map_add_def split: option.splits)
  finally show ?case .
qed

lemma is_covered_iff:
  "is_covered fv s (enumerate m vs) \<longleftrightarrow>
     (\<forall>k<length vs. \<forall>b. fv (vs ! k) = Some b \<longrightarrow> int_digit (s ! (m + k)) = b)"
proof (induction vs arbitrary: m)
  case Nil
  then show ?case by simp
next
  case (Cons v vs)
  have "(\<forall>k<length (v # vs). \<forall>b. fv ((v # vs) ! k) = Some b \<longrightarrow> int_digit (s ! (m + k)) = b)
      \<longleftrightarrow> (\<forall>b. fv v = Some b \<longrightarrow> int_digit (s ! m) = b)
          \<and> (\<forall>k<length vs. \<forall>b. fv (vs ! k) = Some b \<longrightarrow> int_digit (s ! (Suc m + k)) = b)"
    by (auto simp: less_Suc_eq_0_disj)
  then show ?case
    using Cons.IH[of "Suc m"] by (auto split: option.splits)
qed

lemma is_covered_format_b:
  assumes "i < 2 ^ length vs"
  shows "is_covered fv (format_b (length vs) i) (enumerate 0 vs) \<longleftrightarrow>
     (\<forall>k<length vs. \<forall>b. fv (vs ! k) = Some b \<longrightarrow> of_bool (bit i (length vs - 1 - k)) = b)"
  using assms by (simp add: is_covered_iff format_b_nth int_digit_bit_char)

lemma is_covered_empty: "is_covered Map.empty s xs"
  by (induction xs) auto

lemma consistentD:
  assumes "consistent lits" and "(v, p) \<in> set lits" and "(v, p') \<in> set lits"
  shows "p = p'"
proof -
  have "\<forall>l\<in>set lits. \<forall>l'\<in>set lits. fst l = fst l' \<longrightarrow> snd l = snd l'"
    using assms(1) unfolding consistent_def list_all_iff .
  then have "fst (v, p) = fst (v, p') \<longrightarrow> snd (v, p) = snd (v, p')"
    using assms(2,3) by blast
  then show ?thesis by simp
qed

lemma in_fixed_pairs:
  "(v, b) \<in> set (rev (map (\<lambda>l. (fst l, of_bool (snd l))) lits))
     \<longleftrightarrow> (\<exists>p. (v, p) \<in> set lits \<and> b = of_bool p)"
proof
  assume "(v, b) \<in> set (rev (map (\<lambda>l. (fst l, of_bool (snd l))) lits))"
  then have "(v, b) \<in> (\<lambda>l. (fst l, of_bool (snd l))) ` set lits"
    by simp
  then obtain l where l: "l \<in> set lits" "(v, b) = (fst l, of_bool (snd l))"
    by (rule imageE)
  then have "(v, snd l) \<in> set lits \<and> b = of_bool (snd l)"
    by simp
  then show "\<exists>p. (v, p) \<in> set lits \<and> b = of_bool p" ..
next
  assume "\<exists>p. (v, p) \<in> set lits \<and> b = of_bool p"
  then obtain p where p: "(v, p) \<in> set lits" "b = of_bool p"
    by blast
  have "(\<lambda>l. (fst l, of_bool (snd l))) (v, p) \<in> (\<lambda>l. (fst l, of_bool (snd l))) ` set lits"
    using p(1) by (rule imageI)
  then show "(v, b) \<in> set (rev (map (\<lambda>l. (fst l, of_bool (snd l))) lits))"
    using p(2) by simp
qed

lemma fixed_vars_consistent:
  assumes "consistent lits"
  shows "map_of (rev (map (\<lambda>l. (fst l, of_bool (snd l))) lits)) v = Some (b::nat)
     \<longleftrightarrow> (\<exists>p. (v, p) \<in> set lits \<and> b = of_bool p)"
proof
  let ?ps = "rev (map (\<lambda>l. (fst l, of_bool (snd l) :: nat)) lits)"
  assume "map_of ?ps v = Some b"
  then have "(v, b) \<in> set ?ps"
    by (rule map_of_SomeD)
  then show "\<exists>p. (v, p) \<in> set lits \<and> b = of_bool p"
    by (simp only: in_fixed_pairs)
next
  let ?ps = "rev (map (\<lambda>l. (fst l, of_bool (snd l) :: nat)) lits)"
  assume r: "\<exists>p. (v, p) \<in> set lits \<and> b = of_bool p"
  then obtain p where p: "(v, p) \<in> set lits" "b = of_bool p"
    by blast
  have "(v, b) \<in> set ?ps"
    using r by (simp only: in_fixed_pairs)
  then have "map_of ?ps v \<noteq> None"
    by (simp only: map_of_eq_None_iff) (metis fst_conv imageI)
  then obtain b' where b': "map_of ?ps v = Some b'"
    by blast
  then have "(v, b') \<in> set ?ps"
    by (rule map_of_SomeD)
  then obtain p' where p': "(v, p') \<in> set lits" "b' = of_bool p'"
    by (auto simp only: in_fixed_pairs)
  have "p = p'"
    using assms p(1) p'(1) by (rule consistentD)
  then show "map_of ?ps v = Some b"
    using b' p' p by simp
qed

lemma of_bool_literal_iff: "(\<forall>b::nat. (\<exists>p. (v, p) \<in> L \<and> b = of_bool p) \<longrightarrow> of_bool B = b) \<longleftrightarrow> (\<forall>p. (v, p) \<in> L \<longrightarrow> B = p)"
proof
  assume a: "\<forall>b::nat. (\<exists>p. (v, p) \<in> L \<and> b = of_bool p) \<longrightarrow> of_bool B = b"
  show "\<forall>p. (v, p) \<in> L \<longrightarrow> B = p"
  proof (intro allI impI)
    fix p assume "(v, p) \<in> L"
    then have "of_bool B = (of_bool p :: nat)" using a by blast
    then show "B = p" by (cases B; cases p) simp_all
  qed
next
  assume "\<forall>p. (v, p) \<in> L \<longrightarrow> B = p"
  then show "\<forall>b::nat. (\<exists>p. (v, p) \<in> L \<and> b = of_bool p) \<longrightarrow> of_bool B = b"
    by blast
qed

lemma literal_positions_iff: "(\<forall>k<n. \<forall>p. (vs ! k, p) \<in> L \<longrightarrow> Q k = p) \<longleftrightarrow> (\<forall>l\<in>L. \<forall>k\<in>set [0..<n]. vs ! k = fst l \<longrightarrow> Q k = snd l)"
proof
  assume a: "\<forall>k<n. \<forall>p. (vs ! k, p) \<in> L \<longrightarrow> Q k = p"
  show "\<forall>l\<in>L. \<forall>k\<in>set [0..<n]. vs ! k = fst l \<longrightarrow> Q k = snd l"
  proof (intro ballI impI)
    fix l k assume "l \<in> L" "k \<in> set [0..<n]" "vs ! k = fst l"
    then have "k < n" "(vs ! k, snd l) \<in> L" by simp_all
    then show "Q k = snd l" using a by blast
  qed
next
  assume a: "\<forall>l\<in>L. \<forall>k\<in>set [0..<n]. vs ! k = fst l \<longrightarrow> Q k = snd l"
  show "\<forall>k<n. \<forall>p. (vs ! k, p) \<in> L \<longrightarrow> Q k = p"
  proof (intro allI impI)
    fix k p assume "k < n" "(vs ! k, p) \<in> L"
    then show "Q k = p" using a by fastforce
  qed
qed

lemma covered_iff_literals:
  assumes "map literal (term_args t) = map Some lits" and "consistent lits"
    and "i < 2 ^ length vs"
  shows "is_covered (fixed_vars_loop (term_args t) Map.empty) (format_b (length vs) i)
           (enumerate 0 vs)
         \<longleftrightarrow> list_all (literal_holds vs i) lits"
proof -
  let ?n = "length vs"
  have fv: "fixed_vars_loop (term_args t) Map.empty v = Some (b::nat)
      \<longleftrightarrow> (\<exists>p. (v, p) \<in> set lits \<and> b = of_bool p)" for v b
    using fixed_vars_loop_literals[OF assms(1), of Map.empty] fixed_vars_consistent[OF assms(2)]
    by simp
  have "is_covered (fixed_vars_loop (term_args t) Map.empty) (format_b ?n i) (enumerate 0 vs)
      \<longleftrightarrow> (\<forall>k<?n. \<forall>p. (vs ! k, p) \<in> set lits \<longrightarrow> bit i (?n - 1 - k) = p)"
    unfolding is_covered_format_b[OF assms(3)] fv of_bool_literal_iff by (rule refl)
  also have "\<dots> \<longleftrightarrow> list_all (literal_holds vs i) lits"
    unfolding literal_holds_def list_all_iff by (rule literal_positions_iff)
  finally show ?thesis .
qed

text \<open>
  Claim C1. For a term of the minimizer, that is a literal or a conjunction of literals in
  which no variable occurs with both polarities, \<open>get_minterms_for_term\<close> returns, in
  ascending order, exactly the indices below \<open>2 ^ n\<close> whose bit at the position of each
  variable of the term equals the polarity of its literal; the other variables range
  freely. A term with no literal yields all \<open>2 ^ n\<close> indices.
\<close>

theorem get_minterms_for_term_literals:
  assumes "term_literals t = map Some lits" and "consistent lits"
  shows "get_minterms_for_term t variables = spec_minterms lits variables
       \<and> get_minterms_for_term (And_expr []) variables = [0..<2 ^ length variables]"
proof
  have a: "map literal (term_args t) = map Some lits"
    using assms(1) by (simp add: term_literals_args)
  show "get_minterms_for_term t variables = spec_minterms lits variables"
    unfolding get_minterms_for_term_def spec_minterms_def Let_def
    by (rule filter_cong[OF refl]) (simp add: covered_iff_literals[OF a assms(2)])
next
  show "get_minterms_for_term (And_expr []) variables = [0..<2 ^ length variables]"
    by (simp add: get_minterms_for_term_def term_args_def is_covered_empty)
qed

theorem get_minterms_for_term_literals_witness:
  "term_literals (And_expr [Not_expr (Symbol ''a''), Symbol ''b''])
     = map Some [(''a'', False), (''b'', True)]
   \<and> consistent [(''a'', False), (''b'', True)]
   \<and> get_minterms_for_term (And_expr [Not_expr (Symbol ''a''), Symbol ''b''])
       [''a'', ''b'', ''c'', ''d''] = [4, 5, 6, 7]
   \<and> spec_minterms [(''a'', False), (''b'', True)] [''a'', ''b'', ''c'', ''d''] = [4, 5, 6, 7]"
proof -
  have h1: "term_literals (And_expr [Not_expr (Symbol ''a''), Symbol ''b''])
     = map Some [(''a'', False), (''b'', True)]"
    by simp
  have h2: "consistent [(''a'', False), (''b'', True)]"
    by (simp add: consistent_def)
  have s: "spec_minterms [(''a'', False), (''b'', True)] [''a'', ''b'', ''c'', ''d''] = [4, 5, 6, 7]"
    by code_simp
  show ?thesis
    using h1 h2 s get_minterms_for_term_literals[OF h1 h2, of "[''a'', ''b'', ''c'', ''d'']"]
    by simp
qed

lemma format_b_nth_char:
  "i < 2 ^ n \<Longrightarrow> k < n \<Longrightarrow>
   format_b n i ! k = (if bit i (n - 1 - k) then CHR ''1'' else CHR ''0'')"
  by (simp add: format_b_nth bit_char_def)

lemma term_part_spec:
  assumes "grp \<noteq> []" and "\<forall>m\<in>set grp. m < 2 ^ length vs" and "i < length vs"
    and "ft = ''SOP'' \<or> ft = ''POS''"
  shows "term_part (map (format_b (length vs)) grp) vs ft i = spec_literal grp vs ft i"
proof -
  let ?n = "length vs"
  let ?p = "?n - 1 - i"
  let ?c = "\<lambda>m. if bit m ?p then CHR ''1'' else CHR ''0''"
  have nth: "format_b ?n m ! i = ?c m" if "m \<in> set grp" for m
    using assms(2,3) that format_b_nth_char[of m ?n i] by blast
  have hd_in: "grp ! 0 \<in> set grp"
    using assms(1) by simp
  have first: "map (format_b ?n) grp ! 0 ! i = ?c (grp ! 0)"
    using assms(1) nth[OF hd_in] by simp
  have "list_all (\<lambda>b. b ! i = ?c (grp ! 0)) (map (format_b ?n) grp)
      \<longleftrightarrow> (\<forall>m\<in>set grp. ?c m = ?c (grp ! 0))"
    using nth by (simp add: list_all_iff)
  then have const: "list_all (\<lambda>b. b ! i = ?c (grp ! 0)) (map (format_b ?n) grp)
      \<longleftrightarrow> (\<forall>m\<in>set grp. bit m ?p = bit (grp ! 0) ?p)"
    by (simp split: if_splits)
  have tp: "term_part (map (format_b ?n) grp) vs ft i =
      (if \<forall>m\<in>set grp. bit m ?p = bit (grp ! 0) ?p
       then [if (ft = ''SOP'' \<and> ?c (grp ! 0) = CHR ''1'') \<or> (ft = ''POS'' \<and> ?c (grp ! 0) = CHR ''0'')
             then vs ! i else vs ! i @ prime]
       else [])"
    unfolding term_part_def Let_def first const by (rule refl)
  show ?thesis
  proof (cases "bit (grp ! 0) ?p")
    case True
    then have no: "\<not> (\<forall>m\<in>set grp. \<not> bit m ?p)"
      using hd_in by blast
    show ?thesis
      unfolding tp spec_literal_def Let_def list_all_iff
      using True no assms(4) by auto
  next
    case False
    then have no: "\<not> (\<forall>m\<in>set grp. bit m ?p)"
      using hd_in by blast
    show ?thesis
      unfolding tp spec_literal_def Let_def list_all_iff
      using False no assms(4) by auto
  qed
qed

lemma term_parts_spec:
  assumes "grp \<noteq> []" and "\<forall>m\<in>set grp. m < 2 ^ length vs" and "ft = ''SOP'' \<or> ft = ''POS''"
  shows "term_parts grp vs ft = concat (map (spec_literal grp vs ft) [0..<length vs])"
proof -
  have "map (term_part (map (format_b (length vs)) grp) vs ft) [0..<length vs]
      = map (spec_literal grp vs ft) [0..<length vs]"
  proof (rule map_cong[OF refl])
    fix i assume "i \<in> set [0..<length vs]"
    then have "i < length vs" by simp
    then show "term_part (map (format_b (length vs)) grp) vs ft i = spec_literal grp vs ft i"
      using term_part_spec[OF assms(1,2) _ assms(3)] by blast
  qed
  then show ?thesis
    unfolding term_parts_def Let_def by (rule arg_cong)
qed

text \<open>
  Claim C3. For a non-empty group of indices below \<open>2 ^ n\<close> and the modes SOP and POS,
  \<open>group_to_term\<close> returns the term of the specification: one literal for each bit
  position that is constant over the group, named by the rule of the mode, joined without
  separator under SOP and with \<open> + \<close> in parentheses under POS, and \<open>1\<close> when no
  position is constant. For the variables \<open>a, b\<close> the group of index 0 gives \<open>a'b'\<close>
  under SOP and \<open>(a + b)\<close> under POS.
\<close>

theorem group_to_term_literals:
  assumes "grp \<noteq> []" and "\<forall>m\<in>set grp. m < 2 ^ length variables"
    and "form_type = ''SOP'' \<or> form_type = ''POS''"
  shows "group_to_term grp variables form_type = spec_group_term grp variables form_type
       \<and> group_to_term [0] [''a'', ''b''] ''SOP'' = ''a'b'' @ prime
       \<and> group_to_term [0] [''a'', ''b''] ''POS'' = ''(a + b)''"
proof -
  have "group_to_term grp variables form_type = spec_group_term grp variables form_type"
    using assms(1) term_parts_spec[OF assms]
    by (simp add: group_to_term_def spec_group_term_def Let_def)
  moreover have "group_to_term [0] [''a'', ''b''] ''SOP'' = ''a'b'' @ prime"
    by code_simp
  moreover have "group_to_term [0] [''a'', ''b''] ''POS'' = ''(a + b)''"
    by code_simp
  ultimately show ?thesis by simp
qed

theorem group_to_term_literals_witness:
  "[4, 5, 6, 7::nat] \<noteq> []
   \<and> list_all (\<lambda>m. m < 2 ^ length [''a'', ''b'', ''c'', ''d'']) [4, 5, 6, 7::nat]
   \<and> group_to_term [4, 5, 6, 7] [''a'', ''b'', ''c'', ''d''] ''SOP'' = ''a'b''
   \<and> spec_group_term [4, 5, 6, 7] [''a'', ''b'', ''c'', ''d''] ''SOP'' = ''a'b''"
proof -
  have h1: "[4, 5, 6, 7::nat] \<noteq> []"
    by simp
  have h2: "\<forall>m\<in>set [4, 5, 6, 7::nat]. m < 2 ^ length [''a'', ''b'', ''c'', ''d'']"
    by simp
  have h3: "''SOP'' = ''SOP'' \<or> ''SOP'' = ''POS''"
    by simp
  have s: "spec_group_term [4, 5, 6, 7] [''a'', ''b'', ''c'', ''d''] ''SOP'' = ''a'b''"
    by code_simp
  show ?thesis
    using h1 s group_to_term_literals[OF h1 h2 h3] by simp
qed


section \<open>The round trip between groups and terms\<close>

lemma get_minterms_for_term_admits:
  "get_minterms_for_term t vs =
     filter (admits (fixed_vars_loop (term_args t) Map.empty) vs) [0..<2 ^ length vs]"
  unfolding get_minterms_for_term_def Let_def admits_def
  by (rule filter_cong[OF refl]) (simp add: is_covered_format_b)

lemma fixed_vars_loop_step:
  "\<exists>w c. c \<le> 1 \<and> fixed_vars_loop (a # as) fv = fixed_vars_loop as (fv(w \<mapsto> c))"
proof (cases a)
  case (Not_expr x)
  then have "fixed_vars_loop (a # as) fv = fixed_vars_loop as (fv(str_expr x \<mapsto> 0))"
    by simp
  then show ?thesis by (metis zero_le)
next
  case (PyBool x)
  then have "fixed_vars_loop (a # as) fv = fixed_vars_loop as (fv(str_expr a \<mapsto> 1))"
    by simp
  then show ?thesis by (metis order_refl)
next
  case BooleanTrue
  then have "fixed_vars_loop (a # as) fv = fixed_vars_loop as (fv(str_expr a \<mapsto> 1))"
    by simp
  then show ?thesis by (metis order_refl)
next
  case BooleanFalse
  then have "fixed_vars_loop (a # as) fv = fixed_vars_loop as (fv(str_expr a \<mapsto> 1))"
    by simp
  then show ?thesis by (metis order_refl)
next
  case (Symbol x)
  then have "fixed_vars_loop (a # as) fv = fixed_vars_loop as (fv(str_expr a \<mapsto> 1))"
    by simp
  then show ?thesis by (metis order_refl)
next
  case (And_expr x)
  then have "fixed_vars_loop (a # as) fv = fixed_vars_loop as (fv(str_expr a \<mapsto> 1))"
    by simp
  then show ?thesis by (metis order_refl)
next
  case (Or_expr x)
  then have "fixed_vars_loop (a # as) fv = fixed_vars_loop as (fv(str_expr a \<mapsto> 1))"
    by simp
  then show ?thesis by (metis order_refl)
qed

lemma fixed_vars_loop_le_1:
  "\<forall>v b. fv v = Some b \<longrightarrow> b \<le> 1 \<Longrightarrow>
   \<forall>v b. fixed_vars_loop as fv v = Some b \<longrightarrow> b \<le> 1"
proof (induction as arbitrary: fv)
  case Nil
  then show ?case by simp
next
  case (Cons a as)
  obtain w c where c: "c \<le> 1"
    and step: "fixed_vars_loop (a # as) fv = fixed_vars_loop as (fv(w \<mapsto> c))"
    using fixed_vars_loop_step by blast
  have "\<forall>v b. (fv(w \<mapsto> c)) v = Some b \<longrightarrow> b \<le> 1"
    using Cons.prems c by simp
  then show ?case
    unfolding step by (rule Cons.IH)
qed

lemma flip_bit_less:
  assumes "i < 2 ^ n" and "p < n"
  shows "flip_bit p i < (2::nat) ^ n"
proof -
  have "take_bit n (flip_bit p i) = flip_bit p (take_bit n i)"
    using assms(2) by (simp add: take_bit_flip_bit_eq)
  also have "take_bit n i = i"
    using assms(1) by (rule take_bit_nat_eq_self)
  finally have "flip_bit p i = take_bit n (flip_bit p i)"
    by simp
  then show ?thesis
    by (metis take_bit_nat_less_exp)
qed

lemma admits_bit:
  assumes "admits fv vs i" and "k < length vs" and "fv (vs ! k) = Some b"
  shows "bit i (length vs - 1 - k) \<longleftrightarrow> b = 1"
proof -
  have "of_bool (bit i (length vs - 1 - k)) = b"
    using assms unfolding admits_def by blast
  then show ?thesis
    by (cases "bit i (length vs - 1 - k)") auto
qed

lemma admits_flip:
  assumes "admits fv vs i" and "k < length vs" and "fv (vs ! k) = None"
  shows "admits fv vs (flip_bit (length vs - 1 - k) i)"
  unfolding admits_def
proof (intro allI impI)
  fix k' b assume k': "k' < length vs" and b: "fv (vs ! k') = Some b"
  then have "k' \<noteq> k"
    using assms(3) by auto
  then have "length vs - 1 - k' \<noteq> length vs - 1 - k"
    using k' assms(2) by linarith
  then have "bit (flip_bit (length vs - 1 - k) i) (length vs - 1 - k') = bit i (length vs - 1 - k')"
    by (simp add: bit_flip_bit_iff)
  then show "of_bool (bit (flip_bit (length vs - 1 - k) i) (length vs - 1 - k')) = b"
    using assms(1) k' b unfolding admits_def by simp
qed

lemma admits_witness:
  assumes "\<forall>v b. fv v = Some b \<longrightarrow> b \<le> (1::nat)"
  shows "\<exists>i<2 ^ length vs. admits fv vs i"
proof -
  let ?n = "length vs"
  let ?bs = "map (\<lambda>j. fv (vs ! (?n - 1 - j)) = Some 1) [0..<?n]"
  let ?i = "horner_sum of_bool (2::nat) ?bs"
  have less: "?i < 2 ^ ?n"
    using horner_sum_of_bool_2_less[of ?bs] by simp
  have bit: "bit ?i j \<longleftrightarrow> j < ?n \<and> fv (vs ! (?n - 1 - j)) = Some 1" for j
    by (auto simp: bit_horner_sum_bit_iff)
  have "admits fv vs ?i"
    unfolding admits_def
  proof (intro allI impI)
    fix k b assume k: "k < ?n" and b: "fv (vs ! k) = Some b"
    have e: "?n - 1 - (?n - 1 - k) = k"
      using k by simp
    have l: "?n - 1 - k < ?n"
      using k by simp
    have "bit ?i (?n - 1 - k) \<longleftrightarrow> fv (vs ! k) = Some 1"
      unfolding bit e using l by blast
    then have "bit ?i (?n - 1 - k) \<longleftrightarrow> b = 1"
      using b by simp
    moreover have "b \<le> 1"
      using assms b by blast
    ultimately show "of_bool (bit ?i (?n - 1 - k)) = b"
      by (cases "b = 1") auto
  qed
  then show ?thesis using less by blast
qed

lemma cube_less: "m \<in> set (cube fv vs) \<Longrightarrow> m < 2 ^ length vs"
  by (simp add: cube_def)

lemma cube_admits: "m \<in> set (cube fv vs) \<Longrightarrow> admits fv vs m"
  by (simp add: cube_def)

lemma cube_nonempty:
  assumes "\<forall>v b. fv v = Some b \<longrightarrow> b \<le> (1::nat)"
  shows "cube fv vs \<noteq> []"
proof -
  obtain i where "i < 2 ^ length vs" "admits fv vs i"
    using admits_witness[OF assms] by blast
  then have "i \<in> set (cube fv vs)"
    by (simp add: cube_def)
  then show ?thesis by auto
qed

lemma cube_literal:
  assumes le1: "\<forall>v b. fv v = Some b \<longrightarrow> b \<le> (1::nat)" and k: "k < length vs"
  shows "spec_literal (cube fv vs) vs ft k =
     (case fv (vs ! k) of
        None \<Rightarrow> []
      | Some b \<Rightarrow> [if (ft = ''SOP'') = (b = 1) then vs ! k else vs ! k @ prime])"
proof -
  let ?g = "cube fv vs"
  let ?p = "length vs - 1 - k"
  obtain m where m: "m \<in> set ?g"
    using cube_nonempty[OF le1, of vs] by (cases ?g) auto
  show ?thesis
  proof (cases "fv (vs ! k)")
    case None
    have "flip_bit ?p m < 2 ^ length vs"
      using cube_less[OF m] k by (intro flip_bit_less) simp_all
    moreover have "admits fv vs (flip_bit ?p m)"
      using cube_admits[OF m] k None by (rule admits_flip)
    ultimately have f: "flip_bit ?p m \<in> set ?g"
      by (simp add: cube_def)
    have "bit (flip_bit ?p m) ?p \<longleftrightarrow> \<not> bit m ?p"
      by (simp add: bit_flip_bit_iff)
    then have "\<not> (\<forall>x\<in>set ?g. bit x ?p)" and "\<not> (\<forall>x\<in>set ?g. \<not> bit x ?p)"
      using m f by blast+
    then show ?thesis
      using None by (simp add: spec_literal_def Let_def list_all_iff)
  next
    case (Some b)
    have "bit x ?p \<longleftrightarrow> b = 1" if "x \<in> set ?g" for x
      using cube_admits[OF that] k Some by (rule admits_bit)
    then have all: "\<forall>x\<in>set ?g. bit x ?p \<longleftrightarrow> b = 1"
      by blast
    show ?thesis
    proof (cases "b = 1")
      case True
      then have "\<forall>x\<in>set ?g. bit x ?p"
        using all by blast
      then show ?thesis
        using Some True by (simp add: spec_literal_def Let_def list_all_iff)
    next
      case False
      then have "\<forall>x\<in>set ?g. \<not> bit x ?p"
        using all by blast
      moreover from this have "\<not> (\<forall>x\<in>set ?g. bit x ?p)"
        using m by blast
      ultimately show ?thesis
        using Some False by (simp add: spec_literal_def Let_def list_all_iff)
    qed
  qed
qed

lemma term_parts_cube:
  assumes le1: "\<forall>v b. fv v = Some b \<longrightarrow> b \<le> (1::nat)" and ft: "ft = ''SOP'' \<or> ft = ''POS''"
  shows "term_parts (cube fv vs) vs ft =
     concat (map (\<lambda>k. case fv (vs ! k) of
                        None \<Rightarrow> []
                      | Some b \<Rightarrow> [if (ft = ''SOP'') = (b = 1) then vs ! k else vs ! k @ prime])
               [0..<length vs])"
proof -
  have "\<forall>m\<in>set (cube fv vs). m < 2 ^ length vs"
    using cube_less by blast
  then have "term_parts (cube fv vs) vs ft
      = concat (map (spec_literal (cube fv vs) vs ft) [0..<length vs])"
    using cube_nonempty[OF le1] ft by (intro term_parts_spec)
  also have "map (spec_literal (cube fv vs) vs ft) [0..<length vs]
      = map (\<lambda>k. case fv (vs ! k) of
                        None \<Rightarrow> []
                      | Some b \<Rightarrow> [if (ft = ''SOP'') = (b = 1) then vs ! k else vs ! k @ prime])
               [0..<length vs]"
  proof (rule map_cong[OF refl])
    fix k assume "k \<in> set [0..<length vs]"
    then have "k < length vs" by simp
    then show "spec_literal (cube fv vs) vs ft k =
      (case fv (vs ! k) of
        None \<Rightarrow> []
      | Some b \<Rightarrow> [if (ft = ''SOP'') = (b = 1) then vs ! k else vs ! k @ prime])"
      using cube_literal[OF le1] by blast
  qed
  finally show ?thesis .
qed

lemma literal_of_part_plain: "plain_name v \<Longrightarrow> literal_of_part v = Symbol v"
  by (auto simp: literal_of_part_def plain_name_def)

lemma literal_of_part_primed: "literal_of_part (v @ prime) = Not_expr (Symbol v)"
  by (simp add: literal_of_part_def)

lemma map_concat_cong:
  "(\<And>k. k \<in> set ks \<Longrightarrow> map f (F k) = map g (G k)) \<Longrightarrow>
   map f (concat (map F ks)) = map g (concat (map G ks))"
  by (induction ks) auto

lemma literals_of_sop_parts:
  assumes "list_all plain_name vs"
  shows "map (literal \<circ> literal_of_part)
           (concat (map (\<lambda>k. case fv (vs ! k) of
                        None \<Rightarrow> []
                      | Some b \<Rightarrow> [if (''SOP'' = ''SOP'') = (b = 1) then vs ! k else vs ! k @ prime])
               [0..<length vs]))
         = map Some (fixed_literals fv vs)"
  unfolding fixed_literals_def
proof (rule map_concat_cong)
  fix k assume "k \<in> set [0..<length vs]"
  then have "plain_name (vs ! k)"
    using assms by (simp add: list_all_iff)
  then show "map (literal \<circ> literal_of_part)
      (case fv (vs ! k) of
         None \<Rightarrow> []
       | Some b \<Rightarrow> [if (''SOP'' = ''SOP'') = (b = 1) then vs ! k else vs ! k @ prime])
     = map Some (case fv (vs ! k) of None \<Rightarrow> [] | Some b \<Rightarrow> [(vs ! k, b = 1)])"
    by (simp add: literal_of_part_plain literal_of_part_primed split: option.splits)
qed

lemma literals_of_pos_parts:
  assumes "list_all plain_name vs"
  shows "map (literal \<circ> (complement \<circ> literal_of_part))
           (concat (map (\<lambda>k. case fv (vs ! k) of
                        None \<Rightarrow> []
                      | Some b \<Rightarrow> [if (''POS'' = ''SOP'') = (b = 1) then vs ! k else vs ! k @ prime])
               [0..<length vs]))
         = map Some (fixed_literals fv vs)"
  unfolding fixed_literals_def
proof (rule map_concat_cong)
  fix k assume "k \<in> set [0..<length vs]"
  then have "plain_name (vs ! k)"
    using assms by (simp add: list_all_iff)
  then show "map (literal \<circ> (complement \<circ> literal_of_part))
      (case fv (vs ! k) of
         None \<Rightarrow> []
       | Some b \<Rightarrow> [if (''POS'' = ''SOP'') = (b = 1) then vs ! k else vs ! k @ prime])
     = map Some (case fv (vs ! k) of None \<Rightarrow> [] | Some b \<Rightarrow> [(vs ! k, b = 1)])"
    by (simp add: literal_of_part_plain literal_of_part_primed split: option.splits)
qed

lemma in_fixed_literals:
  "(v, p) \<in> set (fixed_literals fv vs)
     \<longleftrightarrow> (\<exists>k<length vs. vs ! k = v \<and> (\<exists>b. fv v = Some b \<and> p = (b = 1)))"
proof -
  let ?F = "\<lambda>k. case fv (vs ! k) of None \<Rightarrow> [] | Some b \<Rightarrow> [(vs ! k, b = 1)]"
  have per: "(v, p) \<in> set (?F k) \<longleftrightarrow> vs ! k = v \<and> (\<exists>b. fv v = Some b \<and> p = (b = 1))" for k
    by (cases "fv (vs ! k)") auto
  have "(v, p) \<in> set (fixed_literals fv vs) \<longleftrightarrow> (\<exists>k\<in>set [0..<length vs]. (v, p) \<in> set (?F k))"
    unfolding fixed_literals_def by simp
  also have "\<dots> \<longleftrightarrow> (\<exists>k<length vs. vs ! k = v \<and> (\<exists>b. fv v = Some b \<and> p = (b = 1)))"
    unfolding per by auto
  finally show ?thesis .
qed

lemma consistent_fixed_literals: "consistent (fixed_literals fv vs)"
  unfolding consistent_def list_all_iff
proof (intro ballI impI)
  fix l l' assume l: "l \<in> set (fixed_literals fv vs)" and l': "l' \<in> set (fixed_literals fv vs)"
    and e: "fst l = fst l'"
  have "(fst l, snd l) \<in> set (fixed_literals fv vs)"
    using l by simp
  moreover have "(fst l, snd l') \<in> set (fixed_literals fv vs)"
    using l' e by (metis prod.collapse)
  ultimately obtain b b' where "fv (fst l) = Some b" "snd l = (b = 1)"
    "fv (fst l) = Some b'" "snd l' = (b' = 1)"
    unfolding in_fixed_literals by blast
  then show "snd l = snd l'" by simp
qed

lemma literal_holds_fixed_literals:
  assumes le1: "\<forall>v b. fv v = Some b \<longrightarrow> b \<le> (1::nat)"
  shows "list_all (literal_holds vs i) (fixed_literals fv vs) \<longleftrightarrow> admits fv vs i"
proof
  assume a: "list_all (literal_holds vs i) (fixed_literals fv vs)"
  show "admits fv vs i"
    unfolding admits_def
  proof (intro allI impI)
    fix k b assume k: "k < length vs" and b: "fv (vs ! k) = Some b"
    then have "(vs ! k, b = 1) \<in> set (fixed_literals fv vs)"
      unfolding in_fixed_literals by blast
    then have "literal_holds vs i (vs ! k, b = 1)"
      using a by (simp add: list_all_iff)
    then have "bit i (length vs - 1 - k) \<longleftrightarrow> b = 1"
      using k by (simp add: literal_holds_def list_all_iff)
    moreover have "b \<le> 1"
      using le1 b by blast
    ultimately show "of_bool (bit i (length vs - 1 - k)) = b"
      by (cases "b = 1") auto
  qed
next
  assume a: "admits fv vs i"
  show "list_all (literal_holds vs i) (fixed_literals fv vs)"
    unfolding list_all_iff
  proof
    fix l assume "l \<in> set (fixed_literals fv vs)"
    then have "(fst l, snd l) \<in> set (fixed_literals fv vs)"
      by simp
    then obtain b where b: "fv (fst l) = Some b" "snd l = (b = 1)"
      unfolding in_fixed_literals by blast
    show "literal_holds vs i l"
      unfolding literal_holds_def list_all_iff
    proof (intro ballI impI)
      fix k assume "k \<in> set [0..<length vs]" and e: "vs ! k = fst l"
      then have k: "k < length vs" by simp
      have "fv (vs ! k) = Some b" using b(1) e by simp
      then have "bit i (length vs - 1 - k) \<longleftrightarrow> b = 1"
        using a k by (intro admits_bit)
      then show "bit i (length vs - 1 - k) = snd l"
        using b(2) by simp
    qed
  qed
qed

lemma expand_fixed_literals:
  assumes "map literal as = map Some (fixed_literals fv vs)"
    and "\<forall>v b. fv v = Some b \<longrightarrow> b \<le> (1::nat)"
  shows "get_minterms_for_term (And_expr as) vs = cube fv vs"
proof -
  have a: "map literal (term_args (And_expr as)) = map Some (fixed_literals fv vs)"
    using assms(1) by (simp add: term_args_def)
  show ?thesis
    unfolding get_minterms_for_term_def cube_def Let_def
  proof (rule filter_cong[OF refl])
    fix i assume "i \<in> set [0..<2 ^ length vs]"
    then have "i < 2 ^ length vs" by simp
    then show "is_covered (fixed_vars_loop (term_args (And_expr as)) Map.empty)
          (format_b (length vs) i) (enumerate 0 vs) = admits fv vs i"
      using covered_iff_literals[OF a consistent_fixed_literals]
        literal_holds_fixed_literals[OF assms(2)] by simp
  qed
qed

lemma get_minterms_for_term_cube:
  "get_minterms_for_term t vs = cube (fixed_vars_loop (term_args t) Map.empty) vs"
  by (simp add: get_minterms_for_term_admits cube_def)

lemma fixed_vars_le_1:
  "\<forall>v b. fixed_vars_loop (term_args t) Map.empty v = Some b \<longrightarrow> b \<le> 1"
  by (rule fixed_vars_loop_le_1) simp

text \<open>
  Claim C2, as stated, fails under POS. The group of index 0 over \<open>a, b\<close> is the
  expansion of the term \<open>a'b'\<close> of the zeros; \<open>group_to_term\<close> derives \<open>(a + b)\<close> from
  it, whose literals \<open>a\<close> and \<open>b\<close> expand to the group of index 3.
\<close>

theorem round_trip_counterexample:
  "get_minterms_for_term (And_expr [Not_expr (Symbol ''a''), Not_expr (Symbol ''b'')])
     [''a'', ''b''] = [0]
   \<and> group_to_term [0] [''a'', ''b''] ''POS'' = ''(a + b)''
   \<and> term_parts [0] [''a'', ''b''] ''POS'' = [''a'', ''b'']
   \<and> get_minterms_for_term (Or_expr (map literal_of_part (term_parts [0] [''a'', ''b''] ''POS'')))
       [''a'', ''b''] = [3]
   \<and> get_minterms_for_term (Or_expr (map literal_of_part (term_parts [0] [''a'', ''b''] ''POS'')))
       [''a'', ''b'']
     \<noteq> get_minterms_for_term (And_expr [Not_expr (Symbol ''a''), Not_expr (Symbol ''b'')])
         [''a'', ''b'']"
  by code_simp

text \<open>
  Claim C2, amended. For variable names that do not end in a prime and every group that
  \<open>get_minterms_for_term\<close> produces: under SOP the literals of the term that
  \<open>group_to_term\<close> derives expand to the same list of indices; under POS, where the
  polarity is inverted by design, the complemented literals of the derived term do.
\<close>

theorem round_trip:
  assumes "list_all plain_name variables"
  shows "get_minterms_for_term
           (And_expr (map literal_of_part
              (term_parts (get_minterms_for_term t variables) variables ''SOP'')))
           variables
         = get_minterms_for_term t variables
       \<and> get_minterms_for_term
           (And_expr (map (complement \<circ> literal_of_part)
              (term_parts (get_minterms_for_term t variables) variables ''POS'')))
           variables
         = get_minterms_for_term t variables"
proof
  let ?fv = "fixed_vars_loop (term_args t) Map.empty"
  have le1: "\<forall>v b. ?fv v = Some b \<longrightarrow> b \<le> 1"
    by (rule fixed_vars_le_1)
  have "map literal (map literal_of_part (term_parts (cube ?fv variables) variables ''SOP''))
      = map Some (fixed_literals ?fv variables)"
    unfolding map_map term_parts_cube[OF le1 disjI1[OF refl]]
    using assms by (rule literals_of_sop_parts)
  then show "get_minterms_for_term
           (And_expr (map literal_of_part
              (term_parts (get_minterms_for_term t variables) variables ''SOP'')))
           variables
         = get_minterms_for_term t variables"
    unfolding get_minterms_for_term_cube[of t] using le1 by (rule expand_fixed_literals)
next
  let ?fv = "fixed_vars_loop (term_args t) Map.empty"
  have le1: "\<forall>v b. ?fv v = Some b \<longrightarrow> b \<le> 1"
    by (rule fixed_vars_le_1)
  have "map literal (map (complement \<circ> literal_of_part)
          (term_parts (cube ?fv variables) variables ''POS''))
      = map Some (fixed_literals ?fv variables)"
    unfolding map_map term_parts_cube[OF le1 disjI2[OF refl]]
    using assms by (rule literals_of_pos_parts)
  then show "get_minterms_for_term
           (And_expr (map (complement \<circ> literal_of_part)
              (term_parts (get_minterms_for_term t variables) variables ''POS'')))
           variables
         = get_minterms_for_term t variables"
    unfolding get_minterms_for_term_cube[of t] using le1 by (rule expand_fixed_literals)
qed

theorem round_trip_witness:
  "list_all plain_name [''a'', ''b'', ''c'', ''d'']
   \<and> get_minterms_for_term (And_expr [Not_expr (Symbol ''a''), Symbol ''b''])
       [''a'', ''b'', ''c'', ''d''] = [4, 5, 6, 7]
   \<and> get_minterms_for_term
       (And_expr (map literal_of_part
          (term_parts (get_minterms_for_term (And_expr [Not_expr (Symbol ''a''), Symbol ''b''])
                         [''a'', ''b'', ''c'', ''d''])
             [''a'', ''b'', ''c'', ''d''] ''SOP'')))
       [''a'', ''b'', ''c'', ''d''] = [4, 5, 6, 7]
   \<and> get_minterms_for_term
       (And_expr (map (complement \<circ> literal_of_part)
          (term_parts (get_minterms_for_term (And_expr [Not_expr (Symbol ''a''), Symbol ''b''])
                         [''a'', ''b'', ''c'', ''d''])
             [''a'', ''b'', ''c'', ''d''] ''POS'')))
       [''a'', ''b'', ''c'', ''d''] = [4, 5, 6, 7]"
proof -
  have h: "list_all plain_name [''a'', ''b'', ''c'', ''d'']"
    by (simp add: plain_name_def)
  have g: "get_minterms_for_term (And_expr [Not_expr (Symbol ''a''), Symbol ''b''])
       [''a'', ''b'', ''c'', ''d''] = [4, 5, 6, 7]"
    by code_simp
  show ?thesis
    using h g round_trip[OF h, of "And_expr [Not_expr (Symbol ''a''), Symbol ''b'']"]
    by (simp only: simp_thms)
qed

end
